theory Spec2Isabelle
  imports Complex_Main
begin

section \<open>Python strings\<close>

text \<open>
  Python \<open>str\<close> values are modelled as \<^typ>\<open>string\<close>. The helpers below are the string
  methods the ETL scripts call: \<open>startswith\<close>, \<open>endswith\<close>, \<open>in\<close> (substring test),
  \<open>lower\<close>, \<open>upper\<close>, \<open>join\<close>, \<open>zfill\<close> and \<open>str\<close> of an integer. Case mapping is the
  ASCII one.
\<close>

definition startswith :: "string \<Rightarrow> string \<Rightarrow> bool" where
  "startswith s p = (take (length p) s = p)"

definition endswith :: "string \<Rightarrow> string \<Rightarrow> bool" where
  "endswith s p = (length p \<le> length s \<and> drop (length s - length p) s = p)"

fun contains :: "string \<Rightarrow> string \<Rightarrow> bool" where
  "contains [] sub = (sub = [])"
| "contains (c # s) sub = (startswith (c # s) sub \<or> contains s sub)"

definition py_lower_char :: "char \<Rightarrow> char" where
  "py_lower_char c =
     (case map_of (zip ''ABCDEFGHIJKLMNOPQRSTUVWXYZ'' ''abcdefghijklmnopqrstuvwxyz'') c of
        Some d \<Rightarrow> d | None \<Rightarrow> c)"

definition py_upper_char :: "char \<Rightarrow> char" where
  "py_upper_char c =
     (case map_of (zip ''abcdefghijklmnopqrstuvwxyz'' ''ABCDEFGHIJKLMNOPQRSTUVWXYZ'') c of
        Some d \<Rightarrow> d | None \<Rightarrow> c)"

definition lower :: "string \<Rightarrow> string" where
  "lower s = map py_lower_char s"

definition upper :: "string \<Rightarrow> string" where
  "upper s = map py_upper_char s"

fun join :: "string \<Rightarrow> string list \<Rightarrow> string" where
  "join sep [] = []"
| "join sep [x] = x"
| "join sep (x # y # ys) = x @ sep @ join sep (y # ys)"

definition is_digit :: "char \<Rightarrow> bool" where
  "is_digit c = (c \<in> set ''0123456789'')"

definition digit_char :: "nat \<Rightarrow> char" where
  "digit_char d = ''0123456789'' ! (d mod 10)"

fun str_nat :: "nat \<Rightarrow> string" where
  "str_nat n = (if n < 10 then [digit_char n] else str_nat (n div 10) @ [digit_char (n mod 10)])"

declare str_nat.simps [simp del]

definition str_int :: "int \<Rightarrow> string" where
  "str_int i = (if i < 0 then CHR ''-'' # str_nat (nat (- i)) else str_nat (nat i))"

text \<open>
  \<open>s.zfill(width)\<close>: a string at least \<open>width\<close> long is returned as it is; a shorter one
  is padded with \<open>'0'\<close> on the left, after a leading sign if there is one.
\<close>

definition zfill :: "nat \<Rightarrow> string \<Rightarrow> string" where
  "zfill width s =
     (if width \<le> length s then s
      else (case s of
              c # rest \<Rightarrow>
                if c = CHR ''+'' \<or> c = CHR ''-''
                then c # replicate (width - length s) CHR ''0'' @ rest
                else replicate (width - length s) CHR ''0'' @ s
            | [] \<Rightarrow> replicate width CHR ''0''))"

section \<open>Errors\<close>

text \<open>
  Every exception the scripts raise, or let a library call raise, is a value. \<open>Exception\<close>
  carries the message of a \<open>raise Exception(...)\<close> of the scripts themselves.
\<close>

datatype error =
    Exception string
  | ValueError string
  | KeyError string
  | TypeError string
  | AttributeError string
  | MergeError string
  | DataSourceError string

section \<open>Tables\<close>

text \<open>
  A cell of a data frame: a Python string, \<open>None\<close>, the missing value \<open>NaN\<close>, or any other
  object (a number, a geometry), kept abstract in \<open>'o\<close>. A data frame is its list of column
  labels and its rows; every row has one cell per column (\<open>rect\<close>). Labels may repeat, as
  they may in pandas.
\<close>

datatype 'o cell = Str string | PyNone | NaN | Obj 'o

fun isna :: "'o cell \<Rightarrow> bool" where
  "isna PyNone = True"
| "isna NaN = True"
| "isna _ = False"

record 'o table =
  cols :: "string list"
  rws :: "'o cell list list"

definition rect :: "'o table \<Rightarrow> bool" where
  "rect t = list_all (\<lambda>r. length r = length (cols t)) (rws t)"

fun index_of :: "'a \<Rightarrow> 'a list \<Rightarrow> nat" where
  "index_of k [] = 0"
| "index_of k (x # xs) = (if x = k then 0 else Suc (index_of k xs))"

definition remove_nth :: "nat \<Rightarrow> 'a list \<Rightarrow> 'a list" where
  "remove_nth i xs = take i xs @ drop (Suc i) xs"

text \<open>The values of the column labelled \<open>k\<close> (the first one so labelled), row by row.\<close>

definition column :: "string \<Rightarrow> 'o table \<Rightarrow> 'o cell list" where
  "column k t = map (\<lambda>r. r ! index_of k (cols t)) (rws t)"

text \<open>
  \<open>series.astype(str)\<close> on one cell: \<open>str(x)\<close>. The rendering of an abstract object is the
  parameter \<open>py_str\<close>.
\<close>

fun astype_str :: "('o \<Rightarrow> string) \<Rightarrow> 'o cell \<Rightarrow> string" where
  "astype_str py_str (Str s) = s"
| "astype_str py_str PyNone = ''None''"
| "astype_str py_str NaN = ''nan''"
| "astype_str py_str (Obj x) = py_str x"

text \<open>
  The canonical form of an identifier, \<open>.astype(str).str.zfill(5)\<close>
  (\<open>load_acs_zipcode_data.py\<close>, lines 147, 160, 177 and 178).
\<close>

definition canonical_zip :: "('o \<Rightarrow> string) \<Rightarrow> 'o cell \<Rightarrow> string" where
  "canonical_zip py_str c = zfill 5 (astype_str py_str c)"

section \<open>Chunking the variable list\<close>

text \<open>
  \<open>range(i, n, step)\<close> for a positive step, and the loop header of \<open>fetch_acs_data\<close>
  (lines 57 and 58):
  \<^verbatim>\<open>for i in range(0, len(variables), max_vars_per_request):
      chunk = variables[i:i + max_vars_per_request]\<close>
  \<open>max_vars_per_request\<close> is a Python integer: a negative step gives an empty range here
  (the start is below the stop), and a zero step raises, which \<open>fetch_acs_data\<close> below
  checks before it calls \<open>variable_chunks\<close>.
\<close>

function py_range :: "nat \<Rightarrow> nat \<Rightarrow> nat \<Rightarrow> nat list" where
  "py_range i n step = (if step = 0 \<or> n \<le> i then [] else i # py_range (i + step) n step)"
  by pat_completeness auto
termination
  by (relation "measure (\<lambda>(i, n, step). n - i)") auto

declare py_range.simps [simp del]

definition variable_chunks :: "string list \<Rightarrow> int \<Rightarrow> string list list" where
  "variable_chunks variables max_vars_per_request =
     (if max_vars_per_request \<le> 0 then []
      else map (\<lambda>i. take (nat max_vars_per_request) (drop i variables))
             (py_range 0 (length variables) (nat max_vars_per_request)))"

section \<open>Data frame operations\<close>

definition bind_err :: "error + 'a \<Rightarrow> ('a \<Rightarrow> error + 'b) \<Rightarrow> error + 'b" where
  "bind_err r f = (case r of Inl e \<Rightarrow> Inl e | Inr x \<Rightarrow> f x)"

fun cell_of_json :: "string option \<Rightarrow> 'o cell" where
  "cell_of_json None = PyNone"
| "cell_of_json (Some s) = Str s"

text \<open>
  \<open>pd.DataFrame(body, columns=labels)\<close> for a list of lists: the rows are padded with \<open>None\<close>
  to the width of the longest one, and that width must be the number of labels, or the
  constructor raises \<open>ValueError\<close> (\<open>n columns passed, passed data had m columns\<close>).
\<close>

definition DataFrame :: "string option list list \<Rightarrow> string list \<Rightarrow> error + 'o table" where
  "DataFrame body labels =
     (let width = fold max (map length body) 0 in
      if body \<noteq> [] \<and> width \<noteq> length labels
      then Inl (ValueError (str_nat (length labels) @ '' columns passed, passed data had ''
                            @ str_nat width @ '' columns''))
      else Inr \<lparr>cols = labels,
                rws = map (\<lambda>r. map cell_of_json r @ replicate (width - length r) PyNone) body\<rparr>)"

text \<open>
  \<open>left.merge(right, on=k, how=h, suffixes=(ls, rs))\<close>. The key must label exactly one
  column on each side. The result has the columns of \<open>left\<close>, then those of \<open>right\<close> without
  its key column; a label that stands on both sides gets the side's suffix. pandas refuses
  suffixes that make two labels of one side equal that were not equal before
  (\<open>suffix_dups\<close>, after \<open>Index.duplicated\<close>). Null keys match each other. A left row is
  paired with every right row of the same key, in order, or padded with \<open>NaN\<close> when there
  is none; an outer join adds the right rows that matched no left row, padded with \<open>NaN\<close>
  on the left. The model lists those after the left rows; pandas orders the rows of an
  outer join by key, so nothing below depends on the position of a row in an outer join.
\<close>

datatype how = LeftJoin | OuterJoin

definition key_match :: "'o cell \<Rightarrow> 'o cell \<Rightarrow> bool" where
  "key_match a b = (a = b \<or> (isna a \<and> isna b))"

definition duplicated :: "'a list \<Rightarrow> nat \<Rightarrow> bool" where
  "duplicated xs i = (xs ! i \<in> set (take i xs))"

definition suffix_dups :: "string list \<Rightarrow> string list \<Rightarrow> bool" where
  "suffix_dups old new = list_ex (\<lambda>i. duplicated new i \<and> \<not> duplicated old i) [0..<length new]"

definition merge_rows ::
  "how \<Rightarrow> nat \<Rightarrow> nat \<Rightarrow> nat \<Rightarrow> nat \<Rightarrow> 'o cell list list \<Rightarrow> 'o cell list list \<Rightarrow> 'o cell list list" where
  "merge_rows h i j nl nr ls rs =
     concat (map (\<lambda>l. let ms = filter (\<lambda>r. key_match (l ! i) (r ! j)) rs
                       in if ms = [] then [l @ replicate nr NaN]
                          else map (\<lambda>r. l @ remove_nth j r) ms) ls)
     @ (case h of
          LeftJoin \<Rightarrow> []
        | OuterJoin \<Rightarrow>
            map (\<lambda>r. (replicate nl NaN)[i := r ! j] @ remove_nth j r)
              (filter (\<lambda>r. \<not> list_ex (\<lambda>l. key_match (l ! i) (r ! j)) ls) rs))"

definition pandas_merge ::
  "how \<Rightarrow> string \<Rightarrow> string \<times> string \<Rightarrow> 'o table \<Rightarrow> 'o table \<Rightarrow> error + 'o table" where
  "pandas_merge h k suffixes left right =
     (if k \<notin> set (cols left) \<or> k \<notin> set (cols right) then Inl (KeyError k)
      else if count_list (cols left) k \<noteq> 1 \<or> count_list (cols right) k \<noteq> 1
      then Inl (ValueError (''The column label is not unique: '' @ k))
      else
        let i = index_of k (cols left);
            j = index_of k (cols right);
            rc = remove_nth j (cols right);
            lnames = map (\<lambda>c. if c \<in> set rc then c @ fst suffixes else c) (cols left);
            rnames = map (\<lambda>c. if c \<in> set (cols left) then c @ snd suffixes else c) rc
        in if suffix_dups (cols left) lnames \<or> suffix_dups rc rnames
           then Inl (MergeError ''Passing suffixes which cause duplicate columns is not allowed'')
           else Inr \<lparr>cols = lnames @ rnames,
                     rws = merge_rows h i j (length (cols left)) (length rc) (rws left) (rws right)\<rparr>)"

text \<open>\<open>df.loc[:, mask]\<close> for a mask computed from the labels, and \<open>df.drop(columns=...)\<close>.\<close>

definition select_columns :: "(string \<Rightarrow> bool) \<Rightarrow> 'o table \<Rightarrow> 'o table" where
  "select_columns keep t =
     \<lparr>cols = filter keep (cols t),
      rws = map (\<lambda>r. map snd (filter (\<lambda>(c, v). keep c) (zip (cols t) r))) (rws t)\<rparr>"

text \<open>
  \<open>pd.concat([a, b], axis=1)\<close> of two frames indexed \<open>0, 1, ...\<close>: the rows are put side by
  side by position, the shorter frame padded with \<open>NaN\<close> rows.
\<close>

definition concat_columns :: "'o table \<Rightarrow> 'o table \<Rightarrow> 'o table" where
  "concat_columns a b =
     \<lparr>cols = cols a @ cols b,
      rws = map (\<lambda>n. (if n < length (rws a) then rws a ! n else replicate (length (cols a)) NaN)
                    @ (if n < length (rws b) then rws b ! n else replicate (length (cols b)) NaN))
              [0..<max (length (rws a)) (length (rws b))]\<rparr>"

definition rename_column :: "string \<Rightarrow> string \<Rightarrow> 'o table \<Rightarrow> 'o table" where
  "rename_column old new t = t\<lparr>cols := map (\<lambda>c. if c = old then new else c) (cols t)\<rparr>"

text \<open>Applying \<open>f\<close> to every cell of the columns whose label satisfies \<open>sel\<close>.\<close>

definition map_columns :: "(string \<Rightarrow> bool) \<Rightarrow> ('o cell \<Rightarrow> 'o cell) \<Rightarrow> 'o table \<Rightarrow> 'o table" where
  "map_columns sel f t =
     t\<lparr>rws := map (\<lambda>r. map (\<lambda>(c, v). if sel c then f v else v) (zip (cols t) r)) (rws t)\<rparr>"

text \<open>
  \<open>df['ZIPCODE'] = df['ZIPCODE'].astype(str).str.zfill(5)\<close>: \<open>KeyError\<close> without such a
  column; with two columns so labelled \<open>df['ZIPCODE']\<close> is a frame, which has no \<open>.str\<close>.
  \<open>zfill_zipcode\<close> is the assignment where it succeeds.
\<close>

definition zfill_zipcode :: "('o \<Rightarrow> string) \<Rightarrow> 'o table \<Rightarrow> 'o table" where
  "zfill_zipcode py_str t =
     map_columns (\<lambda>c. c = ''ZIPCODE'') (\<lambda>v. Str (canonical_zip py_str v)) t"

definition canon_zip_column :: "('o \<Rightarrow> string) \<Rightarrow> 'o table \<Rightarrow> error + 'o table" where
  "canon_zip_column py_str t =
     (if ''ZIPCODE'' \<notin> set (cols t) then Inl (KeyError ''ZIPCODE'')
      else if count_list (cols t) ''ZIPCODE'' \<noteq> 1
      then Inl (AttributeError ''DataFrame object has no attribute str'')
      else Inr (zfill_zipcode py_str t))"

section \<open>Configuration (\<open>config.py\<close>)\<close>

definition CENSUS_BASE_URL :: string where
  "CENSUS_BASE_URL = ''https://api.census.gov''"

definition ACS_YEAR :: int where
  "ACS_YEAR = 2023"

definition ACS_DATASET :: string where
  "ACS_DATASET = ''acs/acs5''"

definition GEO_LEVEL_ZIPCODE :: string where
  "GEO_LEVEL_ZIPCODE = ''zip code tabulation area''"

definition TIGER_BASE_URL :: string where
  "TIGER_BASE_URL = ''https://www2.census.gov/geo/tiger''"

section \<open>The Statistical Data Loader (\<open>load_acs_zipcode_data.py\<close>)\<close>

subsection \<open>\<open>build_census_api_url\<close>\<close>

record request =
  url :: string
  get_param :: string
  for_param :: string
  key_param :: string

definition build_census_api_url :: "string \<Rightarrow> string list \<Rightarrow> string \<Rightarrow> request" where
  "build_census_api_url api_key variables geo_level =
     \<lparr>url = CENSUS_BASE_URL @ ''/data/'' @ str_int ACS_YEAR @ ''/'' @ ACS_DATASET,
      get_param = join '','' variables,
      for_param = (if geo_level = ''zip code tabulation area''
                   then ''zip code tabulation area:*'' else geo_level @ '':*''),
      key_param = api_key\<rparr>"

subsection \<open>\<open>fetch_acs_data\<close>\<close>

text \<open>
  What one \<open>requests.get\<close> of the loop gives, as the \<open>try\<close> block sees it: a
  \<open>RequestException\<close> (connection error, timeout, HTTP error status from
  \<open>raise_for_status\<close>, a body that is not JSON), an empty document, or a two-dimensional
  array, its first row the labels and the rest the data rows, whose cells are strings or
  \<open>null\<close>. The network is the parameter \<open>http_get\<close>, asked with the number of the request and
  the request.
\<close>

datatype response =
    RequestFailed
  | EmptyPayload
  | Payload "string list" "string option list list"

text \<open>
  Lines 57 to 85: one request per chunk. A failed request and a payload of fewer than two
  rows are skipped (\<open>continue\<close>); only \<open>RequestException\<close> is caught, so an error of the
  \<open>DataFrame\<close> constructor leaves the function.
\<close>

fun fetch_chunks ::
  "string \<Rightarrow> (nat \<Rightarrow> request \<Rightarrow> response) \<Rightarrow> nat \<Rightarrow> string list list \<Rightarrow> error + 'o table list" where
  "fetch_chunks api_key http_get n [] = Inr []"
| "fetch_chunks api_key http_get n (chunk # rest) =
     (case http_get n (build_census_api_url api_key chunk GEO_LEVEL_ZIPCODE) of
        RequestFailed \<Rightarrow> fetch_chunks api_key http_get (Suc n) rest
      | EmptyPayload \<Rightarrow> fetch_chunks api_key http_get (Suc n) rest
      | Payload header body \<Rightarrow>
          if body = [] then fetch_chunks api_key http_get (Suc n) rest
          else bind_err (DataFrame body header)
                 (\<lambda>df_chunk. bind_err (fetch_chunks api_key http_get (Suc n) rest)
                    (\<lambda>all_data. Inr (df_chunk # all_data))))"

definition identifier_names :: "string list" where
  "identifier_names = [''zip code tabulation area'', ''ZCTA5'', ''ZIPCODE'']"

text \<open>
  A chunk table as the API gives it for one geography: a rectangular table with a column
  labelled \<open>k\<close> and no other column labelled with a candidate identifier name.
\<close>

definition only_identifier :: "string \<Rightarrow> 'o table \<Rightarrow> bool" where
  "only_identifier k t =
     (rect t \<and> k \<in> set (cols t) \<and> (\<forall>k' \<in> set identifier_names. k' \<in> set (cols t) \<longrightarrow> k' = k))"

text \<open>Lines 95 to 107: the body of the merge loop.\<close>

definition merge_step :: "'o table \<Rightarrow> 'o table \<Rightarrow> error + 'o table" where
  "merge_step df chunk =
     (case find (\<lambda>col. col \<in> set (cols df) \<and> col \<in> set (cols chunk)) identifier_names of
        Some zipcode_col \<Rightarrow>
          bind_err (pandas_merge OuterJoin zipcode_col ([], ''_dup'') df chunk)
            (\<lambda>merged. Inr (select_columns (\<lambda>c. \<not> endswith c ''_dup'') merged))
      | None \<Rightarrow> Inr (concat_columns df chunk))"

fun merge_chunks :: "'o table \<Rightarrow> 'o table list \<Rightarrow> error + 'o table" where
  "merge_chunks df [] = Inr df"
| "merge_chunks df (chunk # rest) = bind_err (merge_step df chunk) (\<lambda>df'. merge_chunks df' rest)"

definition fetch_acs_data ::
  "string \<Rightarrow> (nat \<Rightarrow> request \<Rightarrow> response) \<Rightarrow> string list \<Rightarrow> int \<Rightarrow> error + 'o table" where
  "fetch_acs_data api_key http_get variables max_vars_per_request =
     (if max_vars_per_request = 0 then Inl (ValueError ''range() arg 3 must not be zero'')
      else bind_err (fetch_chunks api_key http_get 0 (variable_chunks variables max_vars_per_request))
             (\<lambda>all_data. case all_data of
                  [] \<Rightarrow> Inl (Exception ''No data was successfully fetched from Census API'')
                | df # chunks \<Rightarrow> merge_chunks df chunks))"

text \<open>
  For the statements about \<open>fetch_acs_data\<close>: the answers of the network to the requests of
  the loop, in order; a chunk that produced usable data (its request did not fail and gave
  two rows or more: lines 70 and 81); the labels of a payload and the table made of it;
  and a payload that is a table (every data row as long as the row of labels, the labels
  distinct and none ending in \<open>_dup\<close>).
\<close>

fun chunk_responses ::
  "string \<Rightarrow> (nat \<Rightarrow> request \<Rightarrow> response) \<Rightarrow> nat \<Rightarrow> string list list \<Rightarrow> response list" where
  "chunk_responses api_key http_get n [] = []"
| "chunk_responses api_key http_get n (chunk # rest) =
     http_get n (build_census_api_url api_key chunk GEO_LEVEL_ZIPCODE)
       # chunk_responses api_key http_get (Suc n) rest"

fun usable :: "response \<Rightarrow> bool" where
  "usable RequestFailed = False"
| "usable EmptyPayload = False"
| "usable (Payload header body) = (body \<noteq> [])"

fun payload_header :: "response \<Rightarrow> string list" where
  "payload_header (Payload header body) = header"
| "payload_header _ = []"

fun payload_table :: "response \<Rightarrow> 'o table" where
  "payload_table (Payload header body) = \<lparr>cols = header, rws = map (map cell_of_json) body\<rparr>"
| "payload_table _ = \<lparr>cols = [], rws = []\<rparr>"

fun well_formed :: "response \<Rightarrow> bool" where
  "well_formed (Payload header body) =
     (list_all (\<lambda>row. length row = length header) body \<and> distinct header
      \<and> list_all (\<lambda>c. \<not> endswith c ''_dup'') header)"
| "well_formed _ = True"

subsection \<open>\<open>clean_acs_data\<close>\<close>

definition find_zipcode_col :: "string list \<Rightarrow> string option" where
  "find_zipcode_col columns = find (\<lambda>col. col \<in> set columns) identifier_names"

definition geography_names :: "string list" where
  "geography_names = [''state'', ''county'', ''tract'', ''block group'', ''name'']"

definition is_variable_col :: "string \<Rightarrow> bool" where
  "is_variable_col col = (col \<noteq> ''ZIPCODE'' \<and> startswith col ''B'' \<and> CHR ''_'' \<in> set col)"

text \<open>
  Lines 138 to 141. \<open>pd.to_numeric(_, errors='coerce')\<close> is the parameter \<open>to_numeric\<close>, cell
  by cell. Where two columns carry the label, \<open>df[col]\<close> is a frame and \<open>to_numeric\<close> raises
  \<open>TypeError\<close>.
\<close>

definition coerce_variables :: "('o cell \<Rightarrow> 'o cell) \<Rightarrow> 'o table \<Rightarrow> error + 'o table" where
  "coerce_variables to_numeric df =
     (if list_ex (\<lambda>col. is_variable_col col \<and> count_list (cols df) col \<noteq> 1) (cols df)
      then Inl (TypeError ''arg must be a list, tuple, 1-d array, or Series'')
      else Inr (map_columns is_variable_col to_numeric df))"

text \<open>Line 144, \<open>df.dropna(subset=['ZIPCODE'])\<close>.\<close>

definition dropna_zipcode :: "'o table \<Rightarrow> 'o table" where
  "dropna_zipcode df =
     df\<lparr>rws := filter (\<lambda>r. \<not> list_ex (\<lambda>(c, v). c = ''ZIPCODE'' \<and> isna v) (zip (cols df) r)) (rws df)\<rparr>"

definition clean_acs_data ::
  "('o cell \<Rightarrow> 'o cell) \<Rightarrow> ('o \<Rightarrow> string) \<Rightarrow> 'o table \<Rightarrow> error + 'o table" where
  "clean_acs_data to_numeric py_str df =
     (case find_zipcode_col (cols df) of
        None \<Rightarrow> Inl (Exception ''Could not find zipcode column in ACS data'')
      | Some zipcode_col \<Rightarrow>
          let df1 = (if zipcode_col \<noteq> ''ZIPCODE'' then rename_column zipcode_col ''ZIPCODE'' df else df);
              df2 = select_columns (\<lambda>col. \<not> (lower col \<in> set geography_names \<and> col \<noteq> ''ZIPCODE'')) df1
          in bind_err (coerce_variables to_numeric df2)
               (\<lambda>df3. canon_zip_column py_str (dropna_zipcode df3)))"

subsection \<open>The container file, \<open>load_existing_zipcodes\<close> and \<open>merge_with_boundaries\<close>\<close>

text \<open>
  The GeoPackage at \<open>OUTPUT_GPKG\<close>: \<open>None\<close> when the file does not exist, else its layers by
  name. Reading a layer that is not there raises.
\<close>

type_synonym 'o gpkg = "(string \<rightharpoonup> 'o table) option"

definition read_layer :: "(string \<rightharpoonup> 'o table) \<Rightarrow> string \<Rightarrow> error + 'o table" where
  "read_layer layers name =
     (case layers name of None \<Rightarrow> Inl (DataSourceError name) | Some t \<Rightarrow> Inr t)"

definition write_layer :: "'o gpkg \<Rightarrow> string \<Rightarrow> 'o table \<Rightarrow> 'o gpkg" where
  "write_layer g name t = Some ((case g of None \<Rightarrow> Map.empty | Some layers \<Rightarrow> layers)(name \<mapsto> t))"

definition merge_with_boundaries ::
  "('o \<Rightarrow> string) \<Rightarrow> string \<Rightarrow> 'o gpkg \<Rightarrow> 'o table \<Rightarrow> error + 'o table" where
  "merge_with_boundaries py_str output_gpkg g acs_df =
     (case g of
        None \<Rightarrow> Inl (Exception (''Zipcode boundaries not found at '' @ output_gpkg
                                @ ''. Run load_tiger_zipcode_boundaries.py first.''))
      | Some layers \<Rightarrow>
          bind_err (read_layer layers ''zipcodes'')
            (\<lambda>boundaries. bind_err (canon_zip_column py_str boundaries)
               (\<lambda>boundaries'. bind_err (canon_zip_column py_str acs_df)
                  (\<lambda>acs_df'. pandas_merge LeftJoin ''ZIPCODE'' (''_x'', ''_y'') boundaries' acs_df'))))"

definition load_existing_zipcodes :: "('o \<Rightarrow> string) \<Rightarrow> 'o gpkg \<Rightarrow> string list option" where
  "load_existing_zipcodes py_str g =
     (case g of
        None \<Rightarrow> None
      | Some layers \<Rightarrow>
          (case read_layer layers ''zipcodes'' of
             Inl e \<Rightarrow> None
           | Inr gdf \<Rightarrow>
               if ''ZIPCODE'' \<in> set (cols gdf)
               then (if count_list (cols gdf) ''ZIPCODE'' \<noteq> 1 then None
                     else Some (map (canonical_zip py_str) (column ''ZIPCODE'' gdf)))
               else None))"

subsection \<open>\<open>save_acs_data\<close>, \<open>main\<close> and the script\<close>

text \<open>
  \<open>df[label] = values\<close>: every column so labelled is overwritten, or a new last column is
  added. Writing a layer to the container replaces the layer; the writes themselves are
  taken to succeed.
\<close>

definition assign_column :: "string \<Rightarrow> 'o cell list \<Rightarrow> 'o table \<Rightarrow> 'o table" where
  "assign_column label vals t =
     (if label \<in> set (cols t)
      then t\<lparr>rws := map (\<lambda>(r, v). map (\<lambda>(c, x). if c = label then v else x) (zip (cols t) r))
                        (zip (rws t) vals)\<rparr>
      else \<lparr>cols = cols t @ [label], rws = map (\<lambda>(r, v). r @ [v]) (zip (rws t) vals)\<rparr>)"

definition save_acs_data :: "'o \<Rightarrow> 'o gpkg \<Rightarrow> 'o table \<Rightarrow> 'o table \<Rightarrow> 'o gpkg" where
  "save_acs_data dummy_point g acs_df merged_gdf =
     (let g1 = write_layer g ''acs_data'' merged_gdf;
          acs_gdf = assign_column ''geometry'' (replicate (length (rws acs_df)) (Obj dummy_point)) acs_df
      in write_layer g1 ''acs_data_table'' acs_gdf)"

text \<open>
  \<open>main\<close>, with the default chunk size 50 of \<open>fetch_acs_data\<close>. The parameters are the
  environment: the API key, the variable list of \<open>get_all_acs_variables()\<close>, the network and
  the path of the container.
\<close>

definition acs_main ::
  "('o cell \<Rightarrow> 'o cell) \<Rightarrow> ('o \<Rightarrow> string) \<Rightarrow> 'o \<Rightarrow> string \<Rightarrow> string list
     \<Rightarrow> (nat \<Rightarrow> request \<Rightarrow> response) \<Rightarrow> string \<Rightarrow> 'o gpkg \<Rightarrow> error + 'o gpkg" where
  "acs_main to_numeric py_str dummy_point api_key all_variables http_get output_gpkg g =
     (if api_key = []
      then Inl (Exception ''CENSUS_API_KEY not found in environment. Please set it in .env file.'')
      else
        let existing_zipcodes = load_existing_zipcodes py_str g in
        bind_err (fetch_acs_data api_key http_get all_variables 50)
          (\<lambda>fetched. bind_err (clean_acs_data to_numeric py_str fetched)
             (\<lambda>cleaned.
                let acs_df =
                  (case existing_zipcodes of
                     None \<Rightarrow> cleaned
                   | Some zs \<Rightarrow>
                       if zs = [] then cleaned
                       else cleaned\<lparr>rws := filter
                              (\<lambda>r. case r ! index_of ''ZIPCODE'' (cols cleaned) of
                                      Str s \<Rightarrow> s \<in> set zs | _ \<Rightarrow> False) (rws cleaned)\<rparr>)
                in bind_err (merge_with_boundaries py_str output_gpkg g acs_df)
                     (\<lambda>merged_gdf. Inr (save_acs_data dummy_point g acs_df merged_gdf)))))"

text \<open>
  The exit status of the two loader scripts: their \<open>__main__\<close> block catches every
  \<open>Exception\<close> of the main function and calls \<open>exit(1)\<close>; a run that falls off the end of the
  script exits with 0.
\<close>

definition loader_exit_status :: "error + 'a \<Rightarrow> int" where
  "loader_exit_status r = (case r of Inl e \<Rightarrow> 1 | Inr x \<Rightarrow> 0)"

section \<open>The Boundary Loader (\<open>load_tiger_zipcode_boundaries.py\<close>)\<close>

subsection \<open>\<open>download_tiger_file\<close>\<close>

text \<open>
  One attempt to download a URL either completes, times out, or fails otherwise; the
  network is the parameter \<open>net\<close>, asked with the URL and the number of the attempt.
  Lines 27 to 72: the loop over \<open>range(max_retries)\<close> with \<open>max_retries = 3\<close>.
\<close>

datatype attempt = Completed | TimedOut | Failed

fun download_attempts :: "(string \<Rightarrow> nat \<Rightarrow> attempt) \<Rightarrow> string \<Rightarrow> nat \<Rightarrow> nat list \<Rightarrow> bool" where
  "download_attempts net u max_retries [] = False"
| "download_attempts net u max_retries (a # rest) =
     (case net u a of
        Completed \<Rightarrow> True
      | TimedOut \<Rightarrow> if a < max_retries - 1 then download_attempts net u max_retries rest else False
      | Failed \<Rightarrow> if a < max_retries - 1 then download_attempts net u max_retries rest else False)"

definition download_tiger_file :: "(string \<Rightarrow> nat \<Rightarrow> attempt) \<Rightarrow> string \<Rightarrow> bool" where
  "download_tiger_file net u = download_attempts net u 3 [0, 1, 2]"

subsection \<open>\<open>extract_zipcode_boundaries\<close>\<close>

definition tiger_file_name :: "int \<Rightarrow> string" where
  "tiger_file_name year = ''tl_'' @ str_int year @ ''_us_zcta520.zip''"

definition tiger_url_of :: "int \<Rightarrow> string" where
  "tiger_url_of year = TIGER_BASE_URL @ ''/TIGER'' @ str_int year @ ''/ZCTA5/'' @ tiger_file_name year"

definition path_join :: "string \<Rightarrow> string \<Rightarrow> string" where
  "path_join dir file = dir @ ''/'' @ file"

text \<open>
  Lines 80 to 114: the archive of the configured year, downloaded unless it is on disk
  already, with the year before as the fallback. The result is the path of the archive.
  \<open>tiger_year\<close> is \<open>TIGER_YEAR\<close> of \<open>config.py\<close> (2025 there), \<open>data_raw\<close> is \<open>DATA_RAW\<close>, and
  \<open>path_exists\<close> is the file system.
\<close>

definition acquire_archive ::
  "int \<Rightarrow> string \<Rightarrow> (string \<Rightarrow> bool) \<Rightarrow> (string \<Rightarrow> nat \<Rightarrow> attempt) \<Rightarrow> error + string" where
  "acquire_archive tiger_year data_raw path_exists net =
     (let tiger_file = tiger_file_name tiger_year;
          tiger_url = tiger_url_of tiger_year;
          zip_path = path_join data_raw tiger_file
      in if \<not> path_exists zip_path then
           if \<not> download_tiger_file net tiger_url then
             if tiger_year > 2020 then
               let fallback_year = tiger_year - 1;
                   tiger_file_fallback = tiger_file_name fallback_year;
                   tiger_url_fallback = tiger_url_of fallback_year;
                   zip_path_fallback = path_join data_raw tiger_file_fallback
               in if download_tiger_file net tiger_url_fallback then Inr zip_path_fallback
                  else Inl (Exception (''Failed to download TIGER file from both ''
                                       @ str_int tiger_year @ '' and '' @ str_int fallback_year))
             else Inl (Exception (''Failed to download TIGER file: '' @ tiger_url))
           else Inr zip_path
         else Inr zip_path)"

text \<open>Lines 156 to 171: the identifier column is renamed to \<open>ZIPCODE\<close>.\<close>

definition zcta_like :: "string \<Rightarrow> bool" where
  "zcta_like col = (contains (upper col) ''ZCTA'' \<or> contains (upper col) ''ZIP'')"

definition rename_to_zipcode :: "'o table \<Rightarrow> error + 'o table" where
  "rename_to_zipcode gdf_filtered =
     (let gdf1 =
        (if ''ZCTA5CE20'' \<in> set (cols gdf_filtered) then rename_column ''ZCTA5CE20'' ''ZIPCODE'' gdf_filtered
         else if ''ZCTA5CE10'' \<in> set (cols gdf_filtered) then rename_column ''ZCTA5CE10'' ''ZIPCODE'' gdf_filtered
         else if ''ZCTA5'' \<in> set (cols gdf_filtered) then rename_column ''ZCTA5'' ''ZIPCODE'' gdf_filtered
         else gdf_filtered)
      in if ''ZIPCODE'' \<notin> set (cols gdf1) then
           (case filter zcta_like (cols gdf1) of
              [] \<Rightarrow> Inl (Exception ''Could not find ZIPCODE column in TIGER file'')
            | c # rest \<Rightarrow> Inr (rename_column c ''ZIPCODE'' gdf1))
         else Inr gdf1)"

text \<open>
  The label of the column that \<open>rename_to_zipcode\<close> turns into (or keeps as) \<open>ZIPCODE\<close>:
  the column the Boundary Loader resolves as the identifier, read off the branches of lines
  157 to 171 (\<open>rename_to_zipcode_resolves\<close> below).
\<close>

definition boundary_zipcode_col :: "string list \<Rightarrow> string option" where
  "boundary_zipcode_col columns =
     (if ''ZCTA5CE20'' \<in> set columns then Some ''ZCTA5CE20''
      else if ''ZCTA5CE10'' \<in> set columns then Some ''ZCTA5CE10''
      else if ''ZCTA5'' \<in> set columns then Some ''ZCTA5''
      else if ''ZIPCODE'' \<in> set columns then Some ''ZIPCODE''
      else (case filter zcta_like columns of [] \<Rightarrow> None | c # rest \<Rightarrow> Some c))"

text \<open>\<open>gdf[labels]\<close>: the columns with these labels, in the order of \<open>labels\<close>.\<close>

definition select_labels :: "string list \<Rightarrow> 'o table \<Rightarrow> error + 'o table" where
  "select_labels labels t =
     (case find (\<lambda>l. l \<notin> set (cols t)) labels of
        Some l \<Rightarrow> Inl (KeyError l)
      | None \<Rightarrow>
          Inr \<lparr>cols = concat (map (\<lambda>l. filter (\<lambda>c. c = l) (cols t)) labels),
               rws = map (\<lambda>r. concat (map (\<lambda>l. map snd (filter (\<lambda>(c, v). c = l) (zip (cols t) r))) labels))
                       (rws t)\<rparr>)"

text \<open>
  The whole function. \<open>read_zcta\<close> stands for lines 116 to 154 (unpacking the archive,
  reading the shapefile, the bounding-box filter and the reprojection): file and geometry
  work of the libraries, which gives a frame or raises.
\<close>

definition extract_zipcode_boundaries ::
  "int \<Rightarrow> string \<Rightarrow> (string \<Rightarrow> bool) \<Rightarrow> (string \<Rightarrow> nat \<Rightarrow> attempt)
     \<Rightarrow> (string \<Rightarrow> error + 'o table) \<Rightarrow> 'o gpkg \<Rightarrow> error + 'o table \<times> 'o gpkg" where
  "extract_zipcode_boundaries tiger_year data_raw path_exists net read_zcta g =
     bind_err (acquire_archive tiger_year data_raw path_exists net)
       (\<lambda>zip_path. bind_err (read_zcta zip_path)
          (\<lambda>gdf_filtered. bind_err (rename_to_zipcode gdf_filtered)
             (\<lambda>gdf1. bind_err
                (select_labels
                   ([''ZIPCODE'', ''geometry'']
                    @ filter (\<lambda>col. col \<in> set (cols gdf1))
                        [''GEOID20'', ''GEOID10'', ''AFFGEOID20'', ''AFFGEOID10'']) gdf1)
                (\<lambda>gdf2. Inr (gdf2, write_layer g ''zipcodes'' gdf2)))))"

section \<open>The exporters\<close>

text \<open>
  Both exporter functions catch every \<open>Exception\<close> and return \<open>False\<close>; their \<open>__main__\<close>
  block calls the function and drops what it returns, so the script falls off its end and
  the interpreter exits with status 0, as it does for any script that ends without an
  uncaught exception (\<open>script_end\<close>).
\<close>

definition script_end :: "error + 'a \<Rightarrow> int" where
  "script_end r = (case r of Inl e \<Rightarrow> 1 | Inr x \<Rightarrow> 0)"

text \<open>
  \<open>convert_geometry_to_wkt.py\<close>. The parameter \<open>wkt\<close> is \<open>lambda x: x.wkt if x else None\<close>.
\<close>

definition convert_geometry_to_wkt :: "('o cell \<Rightarrow> 'o cell) \<Rightarrow> 'o gpkg \<Rightarrow> bool \<times> 'o gpkg" where
  "convert_geometry_to_wkt wkt g =
     (case g of
        None \<Rightarrow> (False, g)
      | Some layers \<Rightarrow>
          (case bind_err (read_layer layers ''zipcodes'')
                  (\<lambda>gdf. if ''geometry'' \<notin> set (cols gdf)
                          then Inl (AttributeError ''No geometry data set'')
                          else Inr (assign_column ''geometry_wkt''
                                      (map wkt (column ''geometry'' gdf)) gdf)) of
             Inl e \<Rightarrow> (False, g)
           | Inr gdf' \<Rightarrow> (True, write_layer g ''zipcodes'' gdf')))"

definition convert_geometry_to_wkt_script :: "('o cell \<Rightarrow> 'o cell) \<Rightarrow> 'o gpkg \<Rightarrow> int \<times> 'o gpkg" where
  "convert_geometry_to_wkt_script wkt g =
     (case convert_geometry_to_wkt wkt g of (returned, g') \<Rightarrow> (script_end (Inr ()), g'))"

text \<open>
  \<open>export_to_json.py\<close>. \<open>sql_table\<close> is what \<open>pd.read_sql_query\<close> gives for the layer
  \<open>acs_data_table\<close> (a frame, or an error), \<open>to_json\<close> is \<open>GeoDataFrame.to_json\<close> (the
  text, or an error: the call is inside the \<open>try\<close> block); the second component of the
  result is the text written to \<open>census_zipcode_data.json\<close>, if any.
\<close>

definition export_to_json ::
  "('o table \<Rightarrow> error + string) \<Rightarrow> error + 'o table \<Rightarrow> 'o gpkg \<Rightarrow> bool \<times> string option" where
  "export_to_json to_json sql_table g =
     (case g of
        None \<Rightarrow> (False, None)
      | Some layers \<Rightarrow>
          (case bind_err
                  (bind_err (read_layer layers ''zipcodes'')
                     (\<lambda>gdf. case read_layer layers ''acs_data'' of
                               Inr acs_gdf \<Rightarrow> Inr acs_gdf
                             | Inl e \<Rightarrow>
                                 bind_err sql_table
                                   (\<lambda>acs_df. pandas_merge LeftJoin ''ZIPCODE'' (''_x'', ''_y'') gdf acs_df)))
                  to_json of
             Inl e \<Rightarrow> (False, None)
           | Inr geojson \<Rightarrow> (True, Some geojson)))"

definition export_to_json_script ::
  "('o table \<Rightarrow> error + string) \<Rightarrow> error + 'o table \<Rightarrow> 'o gpkg \<Rightarrow> int \<times> string option" where
  "export_to_json_script to_json sql_table g =
     (case export_to_json to_json sql_table g of (returned, out) \<Rightarrow> (script_end (Inr ()), out))"

section \<open>Chunking: properties\<close>

lemma ceil_window: "0 < step \<Longrightarrow> step \<le> m \<Longrightarrow> m < 2 * step \<Longrightarrow> m div step = (1::nat)"
  by (simp add: div_nat_eqI)

lemma py_range_length:
  "0 < step \<Longrightarrow> length (py_range i n step) = (n - i + step - 1) div step"
proof (induction i n step rule: py_range.induct)
  case (1 i n step)
  show ?case
  proof (cases "n \<le> i")
    case True
    with "1.prems" show ?thesis by (simp add: py_range.simps [of i n step])
  next
    case False
    have IH: "length (py_range (i + step) n step) = (n - (i + step) + step - 1) div step"
      using "1.IH" "1.prems" False by simp
    have unf: "py_range i n step = i # py_range (i + step) n step"
      using "1.prems" False by (simp add: py_range.simps [of i n step])
    show ?thesis
    proof (cases "n < i + step")
      case True
      have "(n - i + step - 1) div step = 1"
        using False True "1.prems" by (intro ceil_window) arith+
      moreover have "(n - (i + step) + step - 1) div step = 0"
        using True "1.prems" by simp
      ultimately show ?thesis using IH unf by simp
    next
      case False
      then obtain d where d: "n = i + step + d"
        using le_Suc_ex not_less by blast
      define e where "e = n - (i + step) + step - 1"
      have "n - i + step - 1 = e + step"
        unfolding e_def using d "1.prems" by arith
      then have "(n - i + step - 1) div step = Suc (e div step)"
        using "1.prems" by (simp only: div_add_self2)
      then show ?thesis using IH unf by (simp add: e_def)
    qed
  qed
qed

lemma concat_chunks_from:
  "0 < step \<Longrightarrow> concat (map (\<lambda>i. take step (drop i xs)) (py_range i (length xs) step)) = drop i xs"
proof (induction i "length xs" step rule: py_range.induct)
  case (1 i step)
  show ?case
  proof (cases "length xs \<le> i")
    case True
    then show ?thesis by (simp add: py_range.simps [of i "length xs" step])
  next
    case False
    have "take step (drop i xs) @ drop (i + step) xs = drop i xs"
      by (metis add.commute append_take_drop_id drop_drop)
    with "1.hyps" "1.prems" False show ?thesis
      by (simp add: py_range.simps [of i "length xs" step])
  qed
qed

lemma variable_chunks_concat:
  "0 < c \<Longrightarrow> concat (variable_chunks vs c) = vs"
  using concat_chunks_from [of "nat c" vs 0] by (simp add: variable_chunks_def)

lemma variable_chunks_length:
  "0 < c \<Longrightarrow> length (variable_chunks vs c) = (length vs + nat c - 1) div nat c"
  using py_range_length [of "nat c" 0 "length vs"] by (simp add: variable_chunks_def)

lemma int_ceiling_div:
  fixes a c :: int
  assumes "0 < c"
  shows "(a + c - 1) div c = - ((- a) div c)"
proof -
  define q where "q = (- a) div c"
  define r where "r = (- a) mod c"
  have r: "0 \<le> r" "r < c" using assms by (simp_all add: r_def)
  have "- a = c * q + r" by (simp add: q_def r_def)
  then have "a + c - 1 = c * (- q) + (c - 1 - r)" by (simp add: algebra_simps)
  moreover have "0 \<le> c - 1 - r" "c - 1 - r < c" using r by simp_all
  ultimately have "(a + c - 1) div c = - q"
    by (rule int_div_pos_eq)
  then show ?thesis by (simp add: q_def)
qed

lemma nat_ceiling_div:
  assumes "0 < c"
  shows "int ((n + nat c - 1) div nat c) = \<lceil>real n / real_of_int c\<rceil>"
proof -
  have "int ((n + nat c - 1) div nat c) = (int n + c - 1) div c"
    using assms by (simp add: zdiv_int of_nat_diff)
  also have "\<dots> = - ((- int n) div c)"
    using assms by (rule int_ceiling_div)
  also have "\<dots> = \<lceil>real_of_int (int n) / real_of_int c\<rceil>"
    by (simp only: ceiling_divide_eq_div)
  finally show ?thesis by simp
qed

text \<open>
  Claim C4. For a variable list of length \<open>N\<close> and a chunk size \<open>C > 0\<close>, the loop of
  \<open>fetch_acs_data\<close> makes exactly \<open>ceil(N / C)\<close> chunks (one request each), no chunk has
  more than \<open>C\<close> variables, and the chunks together hold exactly the variables of the list
  (in fact their concatenation is the list).
\<close>

theorem C4_chunking:
  assumes "0 < c"
  shows "int (length (variable_chunks vs c)) = \<lceil>real (length vs) / real_of_int c\<rceil>
    \<and> (\<forall>chunk \<in> set (variable_chunks vs c). int (length chunk) \<le> c)
    \<and> (\<Union>chunk \<in> set (variable_chunks vs c). set chunk) = set vs
    \<and> concat (variable_chunks vs c) = vs"
proof -
  have "int (length (variable_chunks vs c)) = \<lceil>real (length vs) / real_of_int c\<rceil>"
    unfolding variable_chunks_length [OF assms] by (rule nat_ceiling_div [OF assms])
  moreover have "\<forall>chunk \<in> set (variable_chunks vs c). int (length chunk) \<le> c"
    using assms by (auto simp: variable_chunks_def)
  moreover have cc: "concat (variable_chunks vs c) = vs"
    using assms by (rule variable_chunks_concat)
  moreover have "(\<Union>chunk \<in> set (variable_chunks vs c). set chunk) = set vs"
    using arg_cong [OF cc, of set] by simp
  ultimately show ?thesis by simp
qed

theorem C4_chunking_witness:
  "(0::int) < 2
   \<and> variable_chunks [''B01001_001E'', ''B01001_002E'', ''B01001_026E'', ''B01002_001E'', ''B02001_001E''] 2
       = [[''B01001_001E'', ''B01001_002E''], [''B01001_026E'', ''B01002_001E''], [''B02001_001E'']]
   \<and> \<lceil>real (5::nat) / real_of_int 2\<rceil> = 3"
  using C4_chunking [of 2 "[''B01001_001E'', ''B01001_002E'', ''B01001_026E'', ''B01002_001E'', ''B02001_001E'']"]
  by (simp add: variable_chunks_def py_range.simps)

section \<open>Strings and tables: basic facts\<close>

lemma zfill_long: "w \<le> length s \<Longrightarrow> zfill w s = s"
  by (simp add: zfill_def)

lemma digit_not_sign: "is_digit c \<Longrightarrow> c \<noteq> CHR ''+'' \<and> c \<noteq> CHR ''-''"
  by (auto simp: is_digit_def)

lemma zfill_digits:
  "list_all is_digit s \<Longrightarrow> zfill w s = replicate (w - length s) CHR ''0'' @ s"
  by (cases s) (auto simp: zfill_def dest: digit_not_sign)

lemma is_digit_zero: "is_digit CHR ''0''"
  by (simp add: is_digit_def)

lemma index_of_less: "k \<in> set xs \<Longrightarrow> index_of k xs < length xs"
  by (induction xs) auto

lemma nth_index_of: "k \<in> set xs \<Longrightarrow> xs ! index_of k xs = k"
  by (induction xs) auto

lemma index_of_map_rename:
  "new \<notin> set xs \<Longrightarrow> index_of new (map (\<lambda>c. if c = old then new else c) xs) = index_of old xs"
  by (induction xs) auto

lemma count_list_rename:
  "old \<noteq> new \<Longrightarrow>
   count_list (map (\<lambda>c. if c = old then new else c) xs) new = count_list xs old + count_list xs new"
  by (induction xs) auto

lemma count_list_filter: "keep k \<Longrightarrow> count_list (filter keep xs) k = count_list xs k"
  by (induction xs) auto

lemma select_nth:
  "keep k \<Longrightarrow> k \<in> set cs \<Longrightarrow> length r = length cs \<Longrightarrow>
   map snd (filter (\<lambda>(c, v). keep c) (zip cs r)) ! index_of k (filter keep cs) = r ! index_of k cs"
proof (induction cs arbitrary: r)
  case Nil
  then show ?case by simp
next
  case (Cons c cs)
  then obtain v vs where r: "r = v # vs" by (cases r) auto
  show ?case
  proof (cases "c = k")
    case True
    with Cons.prems r show ?thesis by simp
  next
    case False
    with Cons r show ?thesis by auto
  qed
qed

lemma select_length:
  "length r = length cs \<Longrightarrow>
   length (map snd (filter (\<lambda>(c, v). keep c) (zip cs r))) = length (filter keep cs)"
proof (induction cs arbitrary: r)
  case Nil
  then show ?case by simp
next
  case (Cons c cs)
  then obtain v vs where r: "r = v # vs" by (cases r) auto
  with Cons show ?case by auto
qed

lemma map_cells_nth:
  "k \<in> set cs \<Longrightarrow> length r = length cs \<Longrightarrow>
   map (\<lambda>(c, v). if sel c then f v else v) (zip cs r) ! index_of k cs
     = (if sel k then f (r ! index_of k cs) else r ! index_of k cs)"
proof (induction cs arbitrary: r)
  case Nil
  then show ?case by simp
next
  case (Cons c cs)
  then obtain v vs where r: "r = v # vs" by (cases r) auto
  with Cons show ?case by auto
qed

lemma rect_select_columns: "rect t \<Longrightarrow> rect (select_columns keep t)"
  using select_length [of _ "cols t" keep]
  by (auto simp: rect_def select_columns_def list_all_iff)

lemma rect_map_columns: "rect t \<Longrightarrow> rect (map_columns sel f t)"
  by (auto simp: rect_def map_columns_def list_all_iff)

lemma rect_rename_column: "rect t \<Longrightarrow> rect (rename_column old new t)"
  by (simp add: rect_def rename_column_def)

lemma rect_dropna: "rect t \<Longrightarrow> rect (dropna_zipcode t)"
  by (auto simp: rect_def dropna_zipcode_def list_all_iff)

lemma column_map_columns:
  "rect t \<Longrightarrow> k \<in> set (cols t) \<Longrightarrow>
   column k (map_columns sel f t) = (if sel k then map f (column k t) else column k t)"
  by (auto simp: column_def map_columns_def rect_def list_all_iff map_cells_nth)

lemma column_select_columns:
  "rect t \<Longrightarrow> k \<in> set (cols t) \<Longrightarrow> keep k \<Longrightarrow> column k (select_columns keep t) = column k t"
  by (auto simp: column_def select_columns_def rect_def list_all_iff select_nth)

lemma column_rename_column:
  "new \<notin> set (cols t) \<Longrightarrow> column new (rename_column old new t) = column old t"
  by (simp add: column_def rename_column_def index_of_map_rename)

lemma column_zfill_zipcode:
  "rect t \<Longrightarrow> ''ZIPCODE'' \<in> set (cols t) \<Longrightarrow>
   column ''ZIPCODE'' (zfill_zipcode py_str t)
     = map (\<lambda>v. Str (canonical_zip py_str v)) (column ''ZIPCODE'' t)"
  by (simp add: zfill_zipcode_def column_map_columns)


lemma rect_zfill_zipcode: "rect t \<Longrightarrow> rect (zfill_zipcode py_str t)"
  by (simp add: zfill_zipcode_def rect_map_columns)

lemma canon_zip_column_Inr:
  assumes "canon_zip_column py_str t = Inr t'"
  shows "t' = zfill_zipcode py_str t \<and> ''ZIPCODE'' \<in> set (cols t)
         \<and> count_list (cols t) ''ZIPCODE'' = 1"
  using assms by (auto simp: canon_zip_column_def split: if_splits)

lemma list_ex_unique_label:
  "count_list cs k = 1 \<Longrightarrow> length r = length cs \<Longrightarrow>
   list_ex (\<lambda>(c, v). c = k \<and> P v) (zip cs r) = P (r ! index_of k cs)"
proof (induction cs arbitrary: r)
  case Nil
  then show ?case by simp
next
  case (Cons c cs)
  then obtain v vs where r: "r = v # vs" by (cases r) auto
  show ?case
  proof (cases "c = k")
    case True
    with Cons.prems have "k \<notin> set cs" by (simp add: count_list_0_iff)
    then have "\<not> list_ex (\<lambda>(c, v). c = k \<and> P v) (zip cs vs)"
      by (auto simp: list_ex_iff dest: set_zip_leftD)
    with True r show ?thesis by simp
  next
    case False
    with Cons r show ?thesis by simp
  qed
qed

lemma column_dropna:
  assumes "rect t" and "count_list (cols t) ''ZIPCODE'' = 1"
  shows "column ''ZIPCODE'' (dropna_zipcode t) = filter (\<lambda>v. \<not> isna v) (column ''ZIPCODE'' t)"
proof -
  have "\<And>r. r \<in> set (rws t) \<Longrightarrow>
          list_ex (\<lambda>(c, v). c = ''ZIPCODE'' \<and> isna v) (zip (cols t) r)
            = isna (r ! index_of ''ZIPCODE'' (cols t))"
    using assms by (intro list_ex_unique_label) (auto simp: rect_def list_all_iff)
  then have "filter (\<lambda>r. \<not> list_ex (\<lambda>(c, v). c = ''ZIPCODE'' \<and> isna v) (zip (cols t) r)) (rws t)
      = filter (\<lambda>r. \<not> isna (r ! index_of ''ZIPCODE'' (cols t))) (rws t)"
    by (intro filter_cong) auto
  then show ?thesis
    by (simp add: column_def dropna_zipcode_def filter_map comp_def)
qed

lemma count_one_in_set: "count_list xs k = 1 \<Longrightarrow> k \<in> set xs"
  by (metis count_list_0_iff zero_neq_one)

lemma find_zipcode_col_in: "find_zipcode_col cs = Some zc \<Longrightarrow> zc \<in> set cs"
  by (auto simp: find_zipcode_col_def find_Some_iff)

lemma count_in_set_pos: "k \<in> set xs \<Longrightarrow> 0 < count_list xs k"
  by (simp add: count_list_0_iff Suc_le_eq zero_less_iff_neq_zero)

lemma clean_zip_column:
  assumes rect: "rect df" and ok: "clean_acs_data to_numeric py_str df = Inr df'"
  shows "\<exists>zc. find_zipcode_col (cols df) = Some zc
           \<and> column ''ZIPCODE'' df'
               = map (\<lambda>v. Str (canonical_zip py_str v)) (filter (\<lambda>v. \<not> isna v) (column zc df))"
proof -
  from ok obtain zc where zc: "find_zipcode_col (cols df) = Some zc"
    by (auto simp: clean_acs_data_def split: option.splits)
  define df1 where "df1 = (if zc \<noteq> ''ZIPCODE'' then rename_column zc ''ZIPCODE'' df else df)"
  define keep where "keep = (\<lambda>col. \<not> (lower col \<in> set geography_names \<and> col \<noteq> ''ZIPCODE''))"
  define df2 where "df2 = select_columns keep df1"
  define df3 where "df3 = map_columns is_variable_col to_numeric df2"
  have canon: "canon_zip_column py_str (dropna_zipcode df3) = Inr df'"
    using ok zc unfolding clean_acs_data_def df1_def df2_def df3_def keep_def
    by (auto simp: Let_def bind_err_def coerce_variables_def split: if_splits)
  have r1: "rect df1" using rect by (simp add: df1_def rect_rename_column)
  have r2: "rect df2" using r1 by (simp add: df2_def rect_select_columns)
  have r3: "rect df3" using r2 by (simp add: df3_def rect_map_columns)
  have r4: "rect (dropna_zipcode df3)" using r3 by (rule rect_dropna)
  have c3: "cols df3 = cols df2" by (simp add: df3_def map_columns_def)
  have c4: "cols (dropna_zipcode df3) = cols df3" by (simp add: dropna_zipcode_def)
  have c2: "cols df2 = filter keep (cols df1)" by (simp add: df2_def select_columns_def)
  have kz: "keep ''ZIPCODE''" by (simp add: keep_def)
  from canon_zip_column_Inr [OF canon]
  have one3: "count_list (cols df3) ''ZIPCODE'' = 1"
    and in4: "''ZIPCODE'' \<in> set (cols (dropna_zipcode df3))"
    and df': "df' = zfill_zipcode py_str (dropna_zipcode df3)"
    by (simp_all add: c4)
  have col': "column ''ZIPCODE'' df'
       = map (\<lambda>v. Str (canonical_zip py_str v)) (column ''ZIPCODE'' (dropna_zipcode df3))"
    unfolding df' using r4 in4 by (rule column_zfill_zipcode)
  have one1: "count_list (cols df1) ''ZIPCODE'' = 1"
    using one3 kz by (simp add: c3 c2 count_list_filter)
  have in1: "''ZIPCODE'' \<in> set (cols df1)" using one1 by (rule count_one_in_set)
  have in2: "''ZIPCODE'' \<in> set (cols df2)" using in1 kz by (simp add: c2)
  have "column ''ZIPCODE'' (dropna_zipcode df3) = filter (\<lambda>v. \<not> isna v) (column ''ZIPCODE'' df3)"
    using r3 one3 by (rule column_dropna)
  also have "column ''ZIPCODE'' df3 = column ''ZIPCODE'' df2"
    using r2 in2 by (simp add: df3_def column_map_columns is_variable_col_def)
  also have "column ''ZIPCODE'' df2 = column ''ZIPCODE'' df1"
    using r1 in1 kz by (simp add: df2_def column_select_columns)
  also have "column ''ZIPCODE'' df1 = column zc df"
  proof (cases "zc = ''ZIPCODE''")
    case True
    then show ?thesis by (simp add: df1_def)
  next
    case False
    have "zc \<in> set (cols df)" using zc by (rule find_zipcode_col_in)
    then have "0 < count_list (cols df) zc" by (rule count_in_set_pos)
    moreover have "count_list (cols df) zc + count_list (cols df) ''ZIPCODE'' = 1"
      using one1 False by (simp add: df1_def rename_column_def count_list_rename)
    ultimately have "''ZIPCODE'' \<notin> set (cols df)"
      by (simp add: count_list_0_iff [symmetric])
    with False show ?thesis by (simp add: df1_def column_rename_column)
  qed
  finally show ?thesis using zc col' by simp
qed

section \<open>Canonical identifiers\<close>

lemma merge_with_boundaries_Inr:
  assumes "merge_with_boundaries py_str output_gpkg (Some layers) acs_df = Inr merged"
    and "layers ''zipcodes'' = Some boundaries"
  shows "pandas_merge LeftJoin ''ZIPCODE'' (''_x'', ''_y'')
           (zfill_zipcode py_str boundaries) (zfill_zipcode py_str acs_df) = Inr merged
         \<and> ''ZIPCODE'' \<in> set (cols boundaries) \<and> ''ZIPCODE'' \<in> set (cols acs_df)
         \<and> count_list (cols boundaries) ''ZIPCODE'' = 1 \<and> count_list (cols acs_df) ''ZIPCODE'' = 1"
proof -
  from assms obtain b where b: "canon_zip_column py_str boundaries = Inr b"
    by (cases "canon_zip_column py_str boundaries")
       (auto simp: merge_with_boundaries_def read_layer_def bind_err_def)
  from assms b obtain a where a: "canon_zip_column py_str acs_df = Inr a"
    by (cases "canon_zip_column py_str acs_df")
       (auto simp: merge_with_boundaries_def read_layer_def bind_err_def)
  from assms b a have "pandas_merge LeftJoin ''ZIPCODE'' (''_x'', ''_y'') b a = Inr merged"
    by (simp add: merge_with_boundaries_def read_layer_def bind_err_def)
  with canon_zip_column_Inr [OF b] canon_zip_column_Inr [OF a] show ?thesis by simp
qed


lemma merge_with_boundaries_example: "merge_with_boundaries (\<lambda>u::unit. ''obj'') ''census.gpkg''
  (Some [''zipcodes'' \<mapsto> \<lparr>cols = [''ZIPCODE'', ''geometry''], rws = [[Str ''2134'', Obj ()], [Str ''64101'', Obj ()]]\<rparr>])
   \<lparr>cols = [''ZIPCODE'', ''B01001_001E''], rws = [[Str ''02134'', Str ''7'']]\<rparr>
  = Inr \<lparr>cols = [''ZIPCODE'', ''geometry'', ''B01001_001E''],
         rws = [[Str ''02134'', Obj (), Str ''7''], [Str ''64101'', Obj (), NaN]]\<rparr>"
  by (simp add: merge_with_boundaries_def read_layer_def bind_err_def canon_zip_column_def
      zfill_zipcode_def map_columns_def pandas_merge_def Let_def remove_nth_def suffix_dups_def
      duplicated_def merge_rows_def key_match_def canonical_zip_def zfill_def)


lemma clean_acs_data_example: "clean_acs_data (\<lambda>c. c) (\<lambda>u::unit. ''obj'')
       \<lparr>cols = [''B01001_001E'', ''NAME'', ''zip code tabulation area''],
         rws = [[Str ''120'', Str ''ZCTA5 64101'', Str ''64101-1234''],
                [Str ''7'', Str ''ZCTA5 02134'', Str ''2134''],
                [Str ''9'', Str ''none'', PyNone]]\<rparr>
     = Inr \<lparr>cols = [''B01001_001E'', ''ZIPCODE''],
              rws = [[Str ''120'', Str ''64101-1234''], [Str ''7'', Str ''02134'']]\<rparr>"
  by code_simp

text \<open>
  Claim C1. For an identifier string of at most five decimal digits, the canonicalization
  of the Statistical Data Loader (\<open>astype(str)\<close>, then \<open>zfill(5)\<close>) gives the string padded
  with zeros on the left to exactly five digits. In \<open>merge_with_boundaries\<close> the join on
  \<open>ZIPCODE\<close> is the left join of the boundary frame and the statistical frame after this
  same canonicalization has been applied to the \<open>ZIPCODE\<close> column of both.
\<close>

theorem C1_canonical_identifier:
  assumes "length s \<le> 5" and "list_all is_digit s"
  shows "canonical_zip py_str (Str s) = replicate (5 - length s) CHR ''0'' @ s
     \<and> length (canonical_zip py_str (Str s)) = 5
     \<and> list_all is_digit (canonical_zip py_str (Str s))
     \<and> (rect boundaries \<and> rect acs_df \<and> layers ''zipcodes'' = Some boundaries
          \<and> merge_with_boundaries py_str output_gpkg (Some layers) acs_df = Inr merged
        \<longrightarrow> pandas_merge LeftJoin ''ZIPCODE'' (''_x'', ''_y'')
              (zfill_zipcode py_str boundaries) (zfill_zipcode py_str acs_df) = Inr merged
            \<and> column ''ZIPCODE'' (zfill_zipcode py_str boundaries)
                = map (\<lambda>v. Str (canonical_zip py_str v)) (column ''ZIPCODE'' boundaries)
            \<and> column ''ZIPCODE'' (zfill_zipcode py_str acs_df)
                = map (\<lambda>v. Str (canonical_zip py_str v)) (column ''ZIPCODE'' acs_df))"
proof -
  have eq: "canonical_zip py_str (Str s) = replicate (5 - length s) CHR ''0'' @ s"
    using assms(2) by (simp add: canonical_zip_def zfill_digits)
  have len: "length (canonical_zip py_str (Str s)) = 5"
    using assms(1) by (simp add: eq)
  have dig: "list_all is_digit (canonical_zip py_str (Str s))"
    using assms(2) by (auto simp: eq list_all_iff is_digit_zero)
  have mrg: "rect boundaries \<and> rect acs_df \<and> layers ''zipcodes'' = Some boundaries
          \<and> merge_with_boundaries py_str output_gpkg (Some layers) acs_df = Inr merged
        \<longrightarrow> pandas_merge LeftJoin ''ZIPCODE'' (''_x'', ''_y'')
              (zfill_zipcode py_str boundaries) (zfill_zipcode py_str acs_df) = Inr merged
            \<and> column ''ZIPCODE'' (zfill_zipcode py_str boundaries)
                = map (\<lambda>v. Str (canonical_zip py_str v)) (column ''ZIPCODE'' boundaries)
            \<and> column ''ZIPCODE'' (zfill_zipcode py_str acs_df)
                = map (\<lambda>v. Str (canonical_zip py_str v)) (column ''ZIPCODE'' acs_df)"
    using merge_with_boundaries_Inr [of py_str output_gpkg layers acs_df merged boundaries]
    by (auto simp: column_zfill_zipcode)
  from eq len dig mrg show ?thesis by blast
qed


theorem C1_canonical_identifier_witness:
  "length ''2134'' \<le> 5 \<and> list_all is_digit ''2134''
   \<and> canonical_zip (\<lambda>u::unit. ''obj'') (Str ''2134'') = ''02134''
   \<and> merge_with_boundaries (\<lambda>u::unit. ''obj'') ''census.gpkg''
        (Some [''zipcodes'' \<mapsto> \<lparr>cols = [''ZIPCODE'', ''geometry''],
                                   rws = [[Str ''2134'', Obj ()], [Str ''64101'', Obj ()]]\<rparr>])
        \<lparr>cols = [''ZIPCODE'', ''B01001_001E''], rws = [[Str ''02134'', Str ''7'']]\<rparr>
      = Inr \<lparr>cols = [''ZIPCODE'', ''geometry'', ''B01001_001E''],
               rws = [[Str ''02134'', Obj (), Str ''7''], [Str ''64101'', Obj (), NaN]]\<rparr>
   \<and> column ''ZIPCODE'' (zfill_zipcode (\<lambda>u::unit. ''obj'')
          \<lparr>cols = [''ZIPCODE'', ''geometry''], rws = [[Str ''2134'', Obj ()], [Str ''64101'', Obj ()]]\<rparr>)
      = [Str ''02134'', Str ''64101'']"
  using C1_canonical_identifier [of "''2134''" "\<lambda>u::unit. ''obj''"
      "\<lparr>cols = [''ZIPCODE'', ''geometry''], rws = [[Str ''2134'', Obj ()], [Str ''64101'', Obj ()]]\<rparr>"
      "\<lparr>cols = [''ZIPCODE'', ''B01001_001E''], rws = [[Str ''02134'', Str ''7'']]\<rparr>"
      "[''zipcodes'' \<mapsto> \<lparr>cols = [''ZIPCODE'', ''geometry''],
                              rws = [[Str ''2134'', Obj ()], [Str ''64101'', Obj ()]]\<rparr>]"
      "''census.gpkg''"
      "\<lparr>cols = [''ZIPCODE'', ''geometry'', ''B01001_001E''],
        rws = [[Str ''02134'', Obj (), Str ''7''], [Str ''64101'', Obj (), NaN]]\<rparr>"]
    merge_with_boundaries_example
  by (simp add: is_digit_def rect_def column_def canonical_zip_def zfill_def zfill_zipcode_def
      map_columns_def)


text \<open>
  Claim C9. Canonicalization never truncates: an identifier string of more than five
  characters is returned unchanged, and such an identifier of the fetched table is still
  there, unchanged, in the \<open>ZIPCODE\<close> column of the table that \<open>clean_acs_data\<close> returns.
\<close>

theorem C9_canonicalization_never_truncates:
  assumes "5 < length s"
  shows "canonical_zip py_str (Str s) = s
     \<and> (rect df \<and> clean_acs_data to_numeric py_str df = Inr df'
          \<and> find_zipcode_col (cols df) = Some zc \<and> Str s \<in> set (column zc df)
        \<longrightarrow> Str s \<in> set (column ''ZIPCODE'' df'))"
proof -
  have eq: "canonical_zip py_str (Str s) = s"
    using assms by (simp add: canonical_zip_def zfill_long)
  have "Str s \<in> set (column ''ZIPCODE'' df')"
    if "rect df" "clean_acs_data to_numeric py_str df = Inr df'"
      "find_zipcode_col (cols df) = Some zc" "Str s \<in> set (column zc df)"
  proof -
    from clean_zip_column [OF that(1,2)] that(3)
    have "column ''ZIPCODE'' df'
        = map (\<lambda>v. Str (canonical_zip py_str v)) (filter (\<lambda>v. \<not> isna v) (column zc df))"
      by simp
    moreover have "Str s \<in> set (filter (\<lambda>v. \<not> isna v) (column zc df))"
      using that(4) by simp
    ultimately show ?thesis using eq by (metis (no_types, lifting) image_eqI set_map)
  qed
  with eq show ?thesis by blast
qed


theorem C9_canonicalization_never_truncates_witness:
  "5 < length ''64101-1234''
   \<and> canonical_zip (\<lambda>u::unit. ''obj'') (Str ''64101-1234'') = ''64101-1234''
   \<and> clean_acs_data (\<lambda>c. c) (\<lambda>u::unit. ''obj'')
         \<lparr>cols = [''B01001_001E'', ''NAME'', ''zip code tabulation area''],
           rws = [[Str ''120'', Str ''ZCTA5 64101'', Str ''64101-1234''],
                  [Str ''7'', Str ''ZCTA5 02134'', Str ''2134''],
                  [Str ''9'', Str ''none'', PyNone]]\<rparr>
       = Inr \<lparr>cols = [''B01001_001E'', ''ZIPCODE''],
                rws = [[Str ''120'', Str ''64101-1234''], [Str ''7'', Str ''02134'']]\<rparr>
   \<and> Str ''64101-1234''
       \<in> set (column ''ZIPCODE'' \<lparr>cols = [''B01001_001E'', ''ZIPCODE''],
                  rws = [[Str ''120'', Str ''64101-1234''], [Str ''7'', Str ''02134'']]\<rparr>)"
  using C9_canonicalization_never_truncates [of "''64101-1234''" "\<lambda>u::unit. ''obj''"
      "\<lparr>cols = [''B01001_001E'', ''NAME'', ''zip code tabulation area''],
        rws = [[Str ''120'', Str ''ZCTA5 64101'', Str ''64101-1234''],
               [Str ''7'', Str ''ZCTA5 02134'', Str ''2134''],
               [Str ''9'', Str ''none'', PyNone]]\<rparr>"
      "\<lambda>c. c"
      "\<lparr>cols = [''B01001_001E'', ''ZIPCODE''],
        rws = [[Str ''120'', Str ''64101-1234''], [Str ''7'', Str ''02134'']]\<rparr>"
      "''zip code tabulation area''"]
    clean_acs_data_example
  by (simp add: rect_def find_zipcode_col_def identifier_names_def column_def)

section \<open>Resolving the identifier column\<close>

lemma rename_to_zipcode_resolves:
  "rename_to_zipcode gdf =
     (case boundary_zipcode_col (cols gdf) of
        None \<Rightarrow> Inl (Exception ''Could not find ZIPCODE column in TIGER file'')
      | Some c \<Rightarrow> Inr (if c = ''ZIPCODE'' then gdf else rename_column c ''ZIPCODE'' gdf))"
  by (auto simp: rename_to_zipcode_def boundary_zipcode_col_def rename_column_def Let_def
      split: list.splits)

lemma find_zipcode_col_cases:
  "find_zipcode_col columns =
     (if ''zip code tabulation area'' \<in> set columns then Some ''zip code tabulation area''
      else if ''ZCTA5'' \<in> set columns then Some ''ZCTA5''
      else if ''ZIPCODE'' \<in> set columns then Some ''ZIPCODE'' else None)"
  by (simp add: find_zipcode_col_def identifier_names_def)

lemma first_filter_find:
  "(case filter P xs of [] \<Rightarrow> None | c # rest \<Rightarrow> Some c) = find P xs"
  by (induction xs) simp_all

lemma census_labels_zcta_like:
  "\<not> zcta_like ''B01001_001E''" "\<not> zcta_like ''NAME''" "zcta_like ''zip code tabulation area''"
  by code_simp+

text \<open>
  Claim C5 says that the cleaning step of the Statistical Data Loader resolves the column
  that the column discovery of the Boundary Loader would resolve on the same column set.
  It does not: the two use different candidate lists. On the labels
  \<open>zip code tabulation area\<close> and \<open>ZCTA5\<close> the first resolves
  \<open>zip code tabulation area\<close> and the second \<open>ZCTA5\<close>; on \<open>ZCTA5CE20\<close> and \<open>geometry\<close> the
  first finds no column (and raises) where the second resolves \<open>ZCTA5CE20\<close>.
\<close>

theorem C5_priority_lists_differ:
  "find_zipcode_col [''zip code tabulation area'', ''ZCTA5''] = Some ''zip code tabulation area''
   \<and> boundary_zipcode_col [''zip code tabulation area'', ''ZCTA5''] = Some ''ZCTA5''
   \<and> find_zipcode_col [''ZCTA5CE20'', ''geometry''] = None
   \<and> boundary_zipcode_col [''ZCTA5CE20'', ''geometry''] = Some ''ZCTA5CE20''"
  by (simp add: find_zipcode_col_cases boundary_zipcode_col_def)

text \<open>
  Claim C5, as amended. Whenever the cleaning step of the Statistical Data Loader resolves
  a column \<open>c\<close> of a table as the identifier, the Boundary Loader resolves the same column
  on the same column set (and renames it to \<open>ZIPCODE\<close>) if and only if the table has no
  column labelled \<open>ZCTA5CE20\<close> or \<open>ZCTA5CE10\<close> and, when it has a column labelled
  \<open>zip code tabulation area\<close>, it has no column labelled \<open>ZCTA5\<close> or \<open>ZIPCODE\<close> and
  \<open>zip code tabulation area\<close> is its first label whose upper-case form contains \<open>ZCTA\<close> or
  \<open>ZIP\<close>. The table of the Census API, with the variables, \<open>NAME\<close> and
  \<open>zip code tabulation area\<close>, is such a table.
\<close>

theorem C5_same_column_resolved:
  assumes "find_zipcode_col (cols t) = Some c"
  shows "(boundary_zipcode_col (cols t) = Some c
          \<and> rename_to_zipcode t = Inr (if c = ''ZIPCODE'' then t else rename_column c ''ZIPCODE'' t))
     \<longleftrightarrow> (''ZCTA5CE20'' \<notin> set (cols t) \<and> ''ZCTA5CE10'' \<notin> set (cols t)
          \<and> (''zip code tabulation area'' \<in> set (cols t) \<longrightarrow>
                ''ZCTA5'' \<notin> set (cols t) \<and> ''ZIPCODE'' \<notin> set (cols t)
                \<and> find zcta_like (cols t) = Some ''zip code tabulation area''))"
proof -
  have resolved: "boundary_zipcode_col (cols t) = Some c \<Longrightarrow>
      rename_to_zipcode t = Inr (if c = ''ZIPCODE'' then t else rename_column c ''ZIPCODE'' t)"
    by (simp add: rename_to_zipcode_resolves)
  show ?thesis
  proof (cases "''zip code tabulation area'' \<in> set (cols t)")
    case True
    with assms have c: "c = ''zip code tabulation area''"
      by (simp add: find_zipcode_col_cases)
    have "boundary_zipcode_col (cols t) = Some c
        \<longleftrightarrow> (''ZCTA5CE20'' \<notin> set (cols t) \<and> ''ZCTA5CE10'' \<notin> set (cols t)
             \<and> ''ZCTA5'' \<notin> set (cols t) \<and> ''ZIPCODE'' \<notin> set (cols t)
             \<and> find zcta_like (cols t) = Some ''zip code tabulation area'')"
      unfolding c boundary_zipcode_col_def first_filter_find by simp
    with True resolved show ?thesis by blast
  next
    case False
    with assms have "c = ''ZCTA5'' \<and> ''ZCTA5'' \<in> set (cols t)
        \<or> c = ''ZIPCODE'' \<and> ''ZCTA5'' \<notin> set (cols t) \<and> ''ZIPCODE'' \<in> set (cols t)"
      by (simp add: find_zipcode_col_cases split: if_splits)
    then have "boundary_zipcode_col (cols t) = Some c
        \<longleftrightarrow> (''ZCTA5CE20'' \<notin> set (cols t) \<and> ''ZCTA5CE10'' \<notin> set (cols t))"
      unfolding boundary_zipcode_col_def by auto
    with False resolved show ?thesis by blast
  qed
qed

theorem C5_same_column_resolved_witness:
  "find_zipcode_col [''B01001_001E'', ''NAME'', ''zip code tabulation area'']
     = Some ''zip code tabulation area''
   \<and> ''ZCTA5CE20'' \<notin> set [''B01001_001E'', ''NAME'', ''zip code tabulation area'']
   \<and> ''ZCTA5CE10'' \<notin> set [''B01001_001E'', ''NAME'', ''zip code tabulation area'']
   \<and> ''ZCTA5'' \<notin> set [''B01001_001E'', ''NAME'', ''zip code tabulation area'']
   \<and> ''ZIPCODE'' \<notin> set [''B01001_001E'', ''NAME'', ''zip code tabulation area'']
   \<and> find zcta_like [''B01001_001E'', ''NAME'', ''zip code tabulation area'']
       = Some ''zip code tabulation area''
   \<and> boundary_zipcode_col [''B01001_001E'', ''NAME'', ''zip code tabulation area'']
       = Some ''zip code tabulation area''
   \<and> rename_to_zipcode
        \<lparr>cols = [''B01001_001E'', ''NAME'', ''zip code tabulation area''],
         rws = [[Str ''1520'', Str ''ZCTA5 64101'', Str ''64101'' :: unit cell]]\<rparr>
       = Inr \<lparr>cols = [''B01001_001E'', ''NAME'', ''ZIPCODE''],
              rws = [[Str ''1520'', Str ''ZCTA5 64101'', Str ''64101'']]\<rparr>"
  using C5_same_column_resolved
    [of "\<lparr>cols = [''B01001_001E'', ''NAME'', ''zip code tabulation area''],
          rws = [[Str ''1520'', Str ''ZCTA5 64101'', Str ''64101'' :: unit cell]]\<rparr>"
        "''zip code tabulation area''"]
  by (simp add: find_zipcode_col_cases census_labels_zcta_like rename_column_def)

section \<open>Failure of the archive download\<close>

lemma startswith_set: "startswith s sub \<Longrightarrow> set sub \<subseteq> set s"
  unfolding startswith_def by (metis set_take_subset)

lemma contains_set: "contains s sub \<Longrightarrow> set sub \<subseteq> set s"
proof (induction s)
  case Nil
  then show ?case by simp
next
  case (Cons c s)
  from Cons.prems have "startswith (c # s) sub \<or> contains s sub" by simp
  then show ?case
  proof
    assume "startswith (c # s) sub"
    then show ?thesis by (rule startswith_set)
  next
    assume "contains s sub"
    then have "set sub \<subseteq> set s" by (rule Cons.IH)
    then show ?thesis by auto
  qed
qed

lemma digit_char_not_colon: "digit_char d \<noteq> CHR '':''"
proof -
  have "d mod 10 < length ''0123456789''" by simp
  then have "''0123456789'' ! (d mod 10) \<in> set ''0123456789''" by (rule nth_mem)
  then show ?thesis unfolding digit_char_def by auto
qed

lemma str_nat_no_colon: "CHR '':'' \<notin> set (str_nat n)"
proof (induction n rule: str_nat.induct)
  case (1 n)
  show ?case
  proof (cases "n < 10")
    case True
    then show ?thesis
      using digit_char_not_colon [of n] by (simp add: str_nat.simps [of n])
  next
    case False
    with "1" digit_char_not_colon [of "n mod 10"] show ?thesis
      by (simp add: str_nat.simps [of n])
  qed
qed

lemma str_int_no_colon: "CHR '':'' \<notin> set (str_int i)"
  by (simp add: str_int_def str_nat_no_colon)

lemma both_years_message_names_no_url:
  "\<not> contains (''Failed to download TIGER file from both '' @ str_int y @ '' and '' @ str_int z)
        (tiger_url_of w)"
proof
  assume "contains (''Failed to download TIGER file from both '' @ str_int y @ '' and '' @ str_int z)
        (tiger_url_of w)"
  then have "set (tiger_url_of w)
      \<subseteq> set (''Failed to download TIGER file from both '' @ str_int y @ '' and '' @ str_int z)"
    by (rule contains_set)
  moreover have "CHR '':'' \<in> set (tiger_url_of w)"
    by (simp add: tiger_url_of_def TIGER_BASE_URL_def)
  ultimately have "CHR '':''
      \<in> set (''Failed to download TIGER file from both '' @ str_int y @ '' and '' @ str_int z)"
    by blast
  then show False
    using str_int_no_colon [of y] str_int_no_colon [of z] by simp
qed

lemma str_int_2025: "str_int 2025 = ''2025'' \<and> str_int 2024 = ''2024''"
  by (simp add: str_int_def str_nat.simps digit_char_def)

lemma download_all_failed: "download_tiger_file (\<lambda>u a. Failed) u = False"
  by (simp add: download_tiger_file_def)

text \<open>
  Claim C7 says that the fatal error raised when the download fails for the configured
  year and for the fallback year names the failed URL. With \<open>TIGER_YEAR = 2025\<close>, no archive
  on disk and every attempt failing, the message is
  \<open>Failed to download TIGER file from both 2025 and 2024\<close>, which contains neither URL.
\<close>

theorem C7_error_names_years_not_url:
  "acquire_archive 2025 ''data/raw/census'' (\<lambda>p. False) (\<lambda>u a. Failed)
     = Inl (Exception ''Failed to download TIGER file from both 2025 and 2024'')
   \<and> tiger_url_of 2025 = ''https://www2.census.gov/geo/tiger/TIGER2025/ZCTA5/tl_2025_us_zcta520.zip''
   \<and> tiger_url_of 2024 = ''https://www2.census.gov/geo/tiger/TIGER2024/ZCTA5/tl_2024_us_zcta520.zip''
   \<and> \<not> contains ''Failed to download TIGER file from both 2025 and 2024'' (tiger_url_of 2025)
   \<and> \<not> contains ''Failed to download TIGER file from both 2025 and 2024'' (tiger_url_of 2024)"
  by (simp add: acquire_archive_def download_all_failed Let_def str_int_2025 tiger_url_of_def
      tiger_file_name_def TIGER_BASE_URL_def startswith_def)

text \<open>
  Claim C7, as amended. When the archive is not on disk, the download fails for the
  configured year (which is after 2020, so that a fallback is tried) and fails for the
  year before, the Boundary Loader aborts: \<open>extract_zipcode_boundaries\<close> raises an
  \<open>Exception\<close> whose message names the two years and contains neither URL, and the script
  exits with status 1.
\<close>

theorem C7_both_downloads_fail:
  assumes "\<not> path_exists (path_join data_raw (tiger_file_name tiger_year))"
    and "\<not> download_tiger_file net (tiger_url_of tiger_year)"
    and "\<not> download_tiger_file net (tiger_url_of (tiger_year - 1))"
    and "2020 < tiger_year"
  shows "acquire_archive tiger_year data_raw path_exists net
           = Inl (Exception (''Failed to download TIGER file from both ''
                             @ str_int tiger_year @ '' and '' @ str_int (tiger_year - 1)))
     \<and> extract_zipcode_boundaries tiger_year data_raw path_exists net read_zcta g
           = Inl (Exception (''Failed to download TIGER file from both ''
                             @ str_int tiger_year @ '' and '' @ str_int (tiger_year - 1)))
     \<and> \<not> contains (''Failed to download TIGER file from both ''
                       @ str_int tiger_year @ '' and '' @ str_int (tiger_year - 1))
             (tiger_url_of tiger_year)
     \<and> \<not> contains (''Failed to download TIGER file from both ''
                       @ str_int tiger_year @ '' and '' @ str_int (tiger_year - 1))
             (tiger_url_of (tiger_year - 1))
     \<and> loader_exit_status (extract_zipcode_boundaries tiger_year data_raw path_exists net read_zcta g) = 1"
proof -
  have acquire: "acquire_archive tiger_year data_raw path_exists net
           = Inl (Exception (''Failed to download TIGER file from both ''
                             @ str_int tiger_year @ '' and '' @ str_int (tiger_year - 1)))"
    using assms by (simp add: acquire_archive_def Let_def)
  then have "extract_zipcode_boundaries tiger_year data_raw path_exists net read_zcta g
           = Inl (Exception (''Failed to download TIGER file from both ''
                             @ str_int tiger_year @ '' and '' @ str_int (tiger_year - 1)))"
    by (simp add: extract_zipcode_boundaries_def bind_err_def)
  with acquire show ?thesis
    using both_years_message_names_no_url [of tiger_year "tiger_year - 1" tiger_year]
      both_years_message_names_no_url [of tiger_year "tiger_year - 1" "tiger_year - 1"]
    by (simp add: loader_exit_status_def)
qed

theorem C7_both_downloads_fail_witness:
  "\<not> (\<lambda>p. False) (path_join ''data/raw/census'' (tiger_file_name 2025))
   \<and> \<not> download_tiger_file (\<lambda>u a. Failed) (tiger_url_of 2025)
   \<and> \<not> download_tiger_file (\<lambda>u a. Failed) (tiger_url_of (2025 - 1))
   \<and> (2020::int) < 2025
   \<and> extract_zipcode_boundaries 2025 ''data/raw/census'' (\<lambda>p. False) (\<lambda>u a. Failed)
        (\<lambda>p. Inr \<lparr>cols = [''ZCTA5CE20'', ''geometry''], rws = [[Str ''64101'', Obj ()]]\<rparr>) None
       = Inl (Exception ''Failed to download TIGER file from both 2025 and 2024'')"
  using C7_both_downloads_fail [of "\<lambda>p. False" "''data/raw/census''" 2025 "\<lambda>u a. Failed"
      "\<lambda>p. Inr \<lparr>cols = [''ZCTA5CE20'', ''geometry''], rws = [[Str ''64101'', Obj ()]]\<rparr>" None]
  by (simp add: download_all_failed str_int_2025)

section \<open>Exit status of the scripts\<close>

text \<open>
  Claim C6 asks for a non-zero exit status on every error path of the four scripts. The
  two exporters do not give one: with the container file missing, or the layer
  \<open>zipcodes\<close> missing from it, \<open>convert_geometry_to_wkt\<close> and \<open>export_to_json\<close> return
  \<open>False\<close> and their scripts exit with status 0. The loader scripts exit with status 1 on
  an exception.
\<close>

theorem C6_exporters_exit_zero_on_failure:
  "convert_geometry_to_wkt wkt None = (False, None)
   \<and> convert_geometry_to_wkt_script wkt None = (0, None)
   \<and> convert_geometry_to_wkt wkt (Some Map.empty) = (False, Some Map.empty)
   \<and> convert_geometry_to_wkt_script wkt (Some Map.empty) = (0, Some Map.empty)
   \<and> export_to_json to_json sql_table None = (False, None)
   \<and> export_to_json_script to_json sql_table None = (0, None)
   \<and> export_to_json to_json sql_table (Some Map.empty) = (False, None)
   \<and> export_to_json_script to_json sql_table (Some Map.empty) = (0, None)
   \<and> loader_exit_status (Inl e :: error + unit) = 1"
  by (simp add: convert_geometry_to_wkt_def convert_geometry_to_wkt_script_def export_to_json_def
      export_to_json_script_def script_end_def read_layer_def bind_err_def loader_exit_status_def)

section \<open>Merging the chunks\<close>

lemma pandas_merge_Inr:
  assumes "pandas_merge h k sfx L R = Inr m"
  shows "k \<in> set (cols L)" "k \<in> set (cols R)"
    "count_list (cols L) k = 1" "count_list (cols R) k = 1"
    "cols m = map (\<lambda>c. if c \<in> set (remove_nth (index_of k (cols R)) (cols R)) then c @ fst sfx else c) (cols L)
            @ map (\<lambda>c. if c \<in> set (cols L) then c @ snd sfx else c)
                (remove_nth (index_of k (cols R)) (cols R))"
    "rws m = merge_rows h (index_of k (cols L)) (index_of k (cols R)) (length (cols L))
               (length (remove_nth (index_of k (cols R)) (cols R))) (rws L) (rws R)"
  using assms by (auto simp: pandas_merge_def Let_def split: if_splits)

lemma suffix_dups_same: "\<not> suffix_dups xs xs"
  by (simp add: suffix_dups_def list_ex_iff)

lemma suffix_dups_distinct: "distinct new \<Longrightarrow> \<not> suffix_dups old new"
  by (auto simp: suffix_dups_def list_ex_iff duplicated_def distinct_conv_nth in_set_conv_nth)

lemma distinct_count_one: "distinct xs \<Longrightarrow> k \<in> set xs \<Longrightarrow> count_list xs k = 1"
  by (induction xs) (auto simp: count_list_0_iff)

lemma set_remove_nth_subset: "set (remove_nth i xs) \<subseteq> set xs"
  by (auto simp: remove_nth_def dest: in_set_takeD in_set_dropD)

lemma distinct_remove_nth: "distinct xs \<Longrightarrow> distinct (remove_nth i xs)"
  by (simp add: remove_nth_def set_take_disj_set_drop_if_distinct)

lemma endswith_append: "endswith (c @ p) p"
  by (simp add: endswith_def)

lemma distinct_dup_renamed:
  assumes "distinct rc" and "\<forall>c \<in> set rc. \<not> endswith c ''_dup''"
  shows "distinct (map (\<lambda>c. if c \<in> S then c @ ''_dup'' else c) rc)"
proof -
  have "inj_on (\<lambda>c. if c \<in> S then c @ ''_dup'' else c) (set rc)"
  proof (rule inj_onI)
    fix x y
    assume x: "x \<in> set rc" and y: "y \<in> set rc"
      and eq: "(if x \<in> S then x @ ''_dup'' else x) = (if y \<in> S then y @ ''_dup'' else y)"
    show "x = y"
    proof (cases "x \<in> S")
      case xS: True
      show ?thesis
      proof (cases "y \<in> S")
        case True
        with xS eq show ?thesis by simp
      next
        case False
        with xS eq have "y = x @ ''_dup''" by simp
        then have "endswith y ''_dup''" by (simp only: endswith_append)
        with y assms(2) show ?thesis by blast
      qed
    next
      case xS: False
      show ?thesis
      proof (cases "y \<in> S")
        case True
        with xS eq have "x = y @ ''_dup''" by simp
        then have "endswith x ''_dup''" by (simp only: endswith_append)
        with x assms(2) show ?thesis by blast
      next
        case False
        with xS eq show ?thesis by simp
      qed
    qed
  qed
  with assms(1) show ?thesis by (simp add: distinct_map)
qed

lemma outer_merge_succeeds:
  assumes "k \<in> set (cols L)" and "k \<in> set (cols R)"
    and "count_list (cols L) k = 1" and "distinct (cols R)"
    and "\<forall>c \<in> set (cols R). \<not> endswith c ''_dup''"
  shows "\<exists>m. pandas_merge h k ([], ''_dup'') L R = Inr m"
proof -
  let ?rc = "remove_nth (index_of k (cols R)) (cols R)"
  have "distinct ?rc" using assms(4) by (rule distinct_remove_nth)
  moreover have "\<forall>c \<in> set ?rc. \<not> endswith c ''_dup''"
    using assms(5) set_remove_nth_subset [of "index_of k (cols R)" "cols R"] by blast
  ultimately have "distinct (map (\<lambda>c. if c \<in> set (cols L) then c @ ''_dup'' else c) ?rc)"
    by (rule distinct_dup_renamed)
  then have "\<not> suffix_dups ?rc (map (\<lambda>c. if c \<in> set (cols L) then c @ ''_dup'' else c) ?rc)"
    by (rule suffix_dups_distinct)
  moreover have "count_list (cols R) k = 1"
    using assms(2,4) by (simp add: distinct_count_one)
  ultimately show ?thesis
    using assms(1,2,3) by (simp add: pandas_merge_def Let_def suffix_dups_same cong: if_cong)
qed

lemma merge_step_shared:
  assumes "find (\<lambda>col. col \<in> set (cols df) \<and> col \<in> set (cols chunk)) identifier_names = Some k"
  shows "merge_step df chunk
           = bind_err (pandas_merge OuterJoin k ([], ''_dup'') df chunk)
               (\<lambda>merged. Inr (select_columns (\<lambda>c. \<not> endswith c ''_dup'') merged))"
    and "k \<in> set (cols df)" and "k \<in> set (cols chunk)" and "k \<in> set identifier_names"
proof -
  show "merge_step df chunk
           = bind_err (pandas_merge OuterJoin k ([], ''_dup'') df chunk)
               (\<lambda>merged. Inr (select_columns (\<lambda>c. \<not> endswith c ''_dup'') merged))"
    using assms by (simp add: merge_step_def)
  show "k \<in> set (cols df)" "k \<in> set (cols chunk)" "k \<in> set identifier_names"
    using assms by (auto simp: find_Some_iff)
qed

lemma merge_step_example:
  "merge_step
     \<lparr>cols = [''B01001_001E'', ''NAME'', ''zip code tabulation area''],
       rws = [[Str ''120'', Str ''ZCTA5 64101'', Str ''64101''],
              [Str ''7'', Str ''ZCTA5 64102'', Str ''64102'']]\<rparr>
     (\<lparr>cols = [''B01001_002E'', ''NAME'', ''zip code tabulation area''],
       rws = [[Str ''60'', Str ''ZCTA5 64101'', Str ''64101''],
              [Str ''4'', Str ''ZCTA5 64105'', Str ''64105'']]\<rparr> :: unit table)
   = Inr \<lparr>cols = [''B01001_001E'', ''NAME'', ''zip code tabulation area'', ''B01001_002E''],
          rws = [[Str ''120'', Str ''ZCTA5 64101'', Str ''64101'', Str ''60''],
                 [Str ''7'', Str ''ZCTA5 64102'', Str ''64102'', NaN],
                 [NaN, NaN, Str ''64105'', Str ''4'']]\<rparr>"
  by code_simp

text \<open>
  Claim C8. When two chunk tables share an identifier column (one of the three candidate
  labels stands in both), the merge step of \<open>fetch_acs_data\<close> gives a table none of whose
  labels ends in \<open>_dup\<close>; and the step does give a table whenever the labels of each of
  the two tables are distinct and no label of the second ends in \<open>_dup\<close>.
\<close>

theorem C8_no_dup_suffixed_columns:
  assumes "find (\<lambda>col. col \<in> set (cols df) \<and> col \<in> set (cols chunk)) identifier_names = Some k"
  shows "(merge_step df chunk = Inr merged \<longrightarrow> (\<forall>c \<in> set (cols merged). \<not> endswith c ''_dup''))
     \<and> (distinct (cols df) \<and> distinct (cols chunk) \<and> (\<forall>c \<in> set (cols chunk). \<not> endswith c ''_dup'')
          \<longrightarrow> (\<exists>m. merge_step df chunk = Inr m))"
proof -
  note step = merge_step_shared [OF assms]
  have "\<forall>c \<in> set (cols merged). \<not> endswith c ''_dup''" if "merge_step df chunk = Inr merged"
  proof -
    from that obtain m where "merged = select_columns (\<lambda>c. \<not> endswith c ''_dup'') m"
      unfolding step(1) by (auto simp: bind_err_def split: sum.splits)
    then show ?thesis by (simp add: select_columns_def)
  qed
  moreover have "\<exists>m. merge_step df chunk = Inr m"
    if "distinct (cols df)" "distinct (cols chunk)" "\<forall>c \<in> set (cols chunk). \<not> endswith c ''_dup''"
  proof -
    have "count_list (cols df) k = 1"
      using that(1) step(2) by (rule distinct_count_one)
    from outer_merge_succeeds [OF step(2) step(3) this that(2) that(3)]
    obtain m where "pandas_merge OuterJoin k ([], ''_dup'') df chunk = Inr m" ..
    then show ?thesis unfolding step(1) by (simp add: bind_err_def)
  qed
  ultimately show ?thesis by blast
qed

theorem C8_no_dup_suffixed_columns_witness:
  "find (\<lambda>col. col \<in> set [''B01001_001E'', ''NAME'', ''zip code tabulation area'']
                 \<and> col \<in> set [''B01001_002E'', ''NAME'', ''zip code tabulation area''])
     identifier_names = Some ''zip code tabulation area''
   \<and> merge_step
       \<lparr>cols = [''B01001_001E'', ''NAME'', ''zip code tabulation area''],
         rws = [[Str ''120'', Str ''ZCTA5 64101'', Str ''64101''],
                [Str ''7'', Str ''ZCTA5 64102'', Str ''64102'']]\<rparr>
       (\<lparr>cols = [''B01001_002E'', ''NAME'', ''zip code tabulation area''],
         rws = [[Str ''60'', Str ''ZCTA5 64101'', Str ''64101''],
                [Str ''4'', Str ''ZCTA5 64105'', Str ''64105'']]\<rparr> :: unit table)
     = Inr \<lparr>cols = [''B01001_001E'', ''NAME'', ''zip code tabulation area'', ''B01001_002E''],
            rws = [[Str ''120'', Str ''ZCTA5 64101'', Str ''64101'', Str ''60''],
                   [Str ''7'', Str ''ZCTA5 64102'', Str ''64102'', NaN],
                   [NaN, NaN, Str ''64105'', Str ''4'']]\<rparr>
   \<and> \<not> endswith ''B01001_001E'' ''_dup'' \<and> \<not> endswith ''NAME'' ''_dup''
   \<and> \<not> endswith ''zip code tabulation area'' ''_dup'' \<and> \<not> endswith ''B01001_002E'' ''_dup''"
  using C8_no_dup_suffixed_columns [of
      "\<lparr>cols = [''B01001_001E'', ''NAME'', ''zip code tabulation area''],
        rws = [[Str ''120'', Str ''ZCTA5 64101'', Str ''64101''],
               [Str ''7'', Str ''ZCTA5 64102'', Str ''64102'']]\<rparr>"
      "\<lparr>cols = [''B01001_002E'', ''NAME'', ''zip code tabulation area''],
        rws = [[Str ''60'', Str ''ZCTA5 64101'', Str ''64101''],
               [Str ''4'', Str ''ZCTA5 64105'', Str ''64105'']]\<rparr> :: unit table"
      "''zip code tabulation area''"
      "\<lparr>cols = [''B01001_001E'', ''NAME'', ''zip code tabulation area'', ''B01001_002E''],
        rws = [[Str ''120'', Str ''ZCTA5 64101'', Str ''64101'', Str ''60''],
               [Str ''7'', Str ''ZCTA5 64102'', Str ''64102'', NaN],
               [NaN, NaN, Str ''64105'', Str ''4'']]\<rparr>"]
    merge_step_example
  by (simp add: identifier_names_def)

section \<open>The left join with the boundaries\<close>










lemma remove_nth_length: "i < length xs \<Longrightarrow> length (remove_nth i xs) = length xs - 1"
  by (simp add: remove_nth_def)

lemma keys_of_rows: "map (\<lambda>r. r ! index_of k (cols t)) (rws t) = column k t"
  by (simp add: column_def)




section \<open>The outer join of the chunks\<close>

lemma outer_rows_iff:
  "mf \<in> set (merge_rows OuterJoin i j nl nr ls rs) \<longleftrightarrow>
     (\<exists>l \<in> set ls. (\<forall>r \<in> set rs. \<not> key_match (l ! i) (r ! j)) \<and> mf = l @ replicate nr NaN)
   \<or> (\<exists>l \<in> set ls. \<exists>r \<in> set rs. key_match (l ! i) (r ! j) \<and> mf = l @ remove_nth j r)
   \<or> (\<exists>r \<in> set rs. (\<forall>l \<in> set ls. \<not> key_match (l ! i) (r ! j))
          \<and> mf = (replicate nl NaN)[i := r ! j] @ remove_nth j r)"
  (is "?lhs \<longleftrightarrow> ?a \<or> ?b \<or> ?c")
proof -
  have left: "mf \<in> set (let ms = filter (\<lambda>r. key_match (l ! i) (r ! j)) rs
                        in if ms = [] then [l @ replicate nr NaN]
                           else map (\<lambda>r. l @ remove_nth j r) ms)
      \<longleftrightarrow> ((\<forall>r \<in> set rs. \<not> key_match (l ! i) (r ! j)) \<and> mf = l @ replicate nr NaN)
        \<or> (\<exists>r \<in> set rs. key_match (l ! i) (r ! j) \<and> mf = l @ remove_nth j r)" for l
    by (auto simp: Let_def filter_empty_conv)
  have "?lhs \<longleftrightarrow>
      (\<exists>l \<in> set ls. mf \<in> set (let ms = filter (\<lambda>r. key_match (l ! i) (r ! j)) rs
                        in if ms = [] then [l @ replicate nr NaN]
                           else map (\<lambda>r. l @ remove_nth j r) ms))
      \<or> ?c"
    by (auto simp: merge_rows_def list_ex_iff)
  then show ?thesis unfolding left by blast
qed

lemma key_match_refl: "key_match a a"
  by (simp add: key_match_def)

lemma index_of_append_left: "k \<in> set xs \<Longrightarrow> index_of k (xs @ ys) = index_of k xs"
  by (induction xs) auto

lemma index_of_append_right: "k \<notin> set xs \<Longrightarrow> index_of k (xs @ ys) = length xs + index_of k ys"
  by (induction xs) auto

lemma index_of_neq: "a \<in> set xs \<Longrightarrow> a \<noteq> b \<Longrightarrow> index_of a xs \<noteq> index_of b xs"
  by (induction xs) auto

lemma no_suffix_names: "map (\<lambda>c. if P c then c @ fst ([], s) else c) xs = xs"
  by (induction xs) auto

lemma outer_merge_shape:
  assumes pm: "pandas_merge OuterJoin k ([], ''_dup'') L R = Inr m"
  shows "cols m = cols L @ map (\<lambda>c. if c \<in> set (cols L) then c @ ''_dup'' else c)
                           (remove_nth (index_of k (cols R)) (cols R))"
    and "rws m = merge_rows OuterJoin (index_of k (cols L)) (index_of k (cols R)) (length (cols L))
                   (length (cols R) - 1) (rws L) (rws R)"
    and "index_of k (cols m) = index_of k (cols L)"
proof -
  show c: "cols m = cols L @ map (\<lambda>c. if c \<in> set (cols L) then c @ ''_dup'' else c)
                           (remove_nth (index_of k (cols R)) (cols R))"
    using pandas_merge_Inr(5) [OF pm] by (simp add: no_suffix_names)
  have "index_of k (cols R) < length (cols R)"
    using pandas_merge_Inr(2) [OF pm] by (rule index_of_less)
  then show "rws m = merge_rows OuterJoin (index_of k (cols L)) (index_of k (cols R)) (length (cols L))
                   (length (cols R) - 1) (rws L) (rws R)"
    using pandas_merge_Inr(6) [OF pm] by (simp add: remove_nth_length)
  show "index_of k (cols m) = index_of k (cols L)"
    unfolding c using pandas_merge_Inr(1) [OF pm] by (rule index_of_append_left)
qed

lemma rect_outer_merge:
  assumes pm: "pandas_merge OuterJoin k ([], ''_dup'') L R = Inr m"
    and "rect L" and "rect R"
  shows "rect m"
proof -
  let ?i = "index_of k (cols L)" and ?j = "index_of k (cols R)"
  have j: "?j < length (cols R)" using pandas_merge_Inr(2) [OF pm] by (rule index_of_less)
  have lenL: "\<And>l. l \<in> set (rws L) \<Longrightarrow> length l = length (cols L)"
    using assms(2) by (simp add: rect_def list_all_iff)
  have lenR: "\<And>r. r \<in> set (rws R) \<Longrightarrow> length (remove_nth ?j r) = length (cols R) - 1"
    using assms(3) j by (simp add: rect_def list_all_iff remove_nth_length)
  have "length mf = length (cols L) + (length (cols R) - 1)" if "mf \<in> set (rws m)" for mf
    using that unfolding outer_merge_shape(2) [OF pm] outer_rows_iff
    by (auto simp: lenL lenR)
  then show ?thesis
    using j by (simp add: rect_def list_all_iff outer_merge_shape(1) [OF pm] remove_nth_length)
qed

lemma identifier_not_dup: "k \<in> set identifier_names \<Longrightarrow> \<not> endswith k ''_dup''"
  by (auto simp: identifier_names_def endswith_def)

lemma outer_merge_keys:
  assumes pm: "pandas_merge OuterJoin k ([], ''_dup'') L R = Inr m"
    and rL: "rect L" and rR: "rect R"
  shows "set (column k m)
     = set (column k L) \<union> {v \<in> set (column k R). \<forall>u \<in> set (column k L). \<not> key_match u v}"
proof -
  let ?i = "index_of k (cols L)" and ?j = "index_of k (cols R)"
  let ?nl = "length (cols L)" and ?nr = "length (cols R) - 1"
  have i: "?i < ?nl" using pandas_merge_Inr(1) [OF pm] by (rule index_of_less)
  have lenL: "\<And>l. l \<in> set (rws L) \<Longrightarrow> length l = ?nl"
    using rL by (simp add: rect_def list_all_iff)
  have colm: "column k m = map (\<lambda>mf. mf ! ?i) (rws m)"
    by (simp add: column_def outer_merge_shape(3) [OF pm])
  have rows: "mf \<in> set (rws m) \<longleftrightarrow>
       (\<exists>l \<in> set (rws L). (\<forall>r \<in> set (rws R). \<not> key_match (l ! ?i) (r ! ?j)) \<and> mf = l @ replicate ?nr NaN)
     \<or> (\<exists>l \<in> set (rws L). \<exists>r \<in> set (rws R). key_match (l ! ?i) (r ! ?j) \<and> mf = l @ remove_nth ?j r)
     \<or> (\<exists>r \<in> set (rws R). (\<forall>l \<in> set (rws L). \<not> key_match (l ! ?i) (r ! ?j))
            \<and> mf = (replicate ?nl NaN)[?i := r ! ?j] @ remove_nth ?j r)" for mf
    unfolding outer_merge_shape(2) [OF pm] by (rule outer_rows_iff)
  show ?thesis
  proof (intro set_eqI iffI)
    fix v
    assume "v \<in> set (column k m)"
    then obtain mf where mf: "mf \<in> set (rws m)" and v: "v = mf ! ?i"
      unfolding colm by auto
    from mf [unfolded rows] show "v \<in> set (column k L) \<union> {v \<in> set (column k R). \<forall>u \<in> set (column k L). \<not> key_match u v}"
    proof (elim disjE bexE conjE)
      fix l assume "l \<in> set (rws L)" "mf = l @ replicate ?nr NaN"
      then show ?thesis using v i lenL by (auto simp: column_def nth_append)
    next
      fix l r assume "l \<in> set (rws L)" "mf = l @ remove_nth ?j r"
      then show ?thesis using v i lenL by (auto simp: column_def nth_append)
    next
      fix r assume r: "r \<in> set (rws R)" "\<forall>l \<in> set (rws L). \<not> key_match (l ! ?i) (r ! ?j)"
        and "mf = (replicate ?nl NaN)[?i := r ! ?j] @ remove_nth ?j r"
      then have "v = r ! ?j" using v i by (simp add: nth_append)
      with r show ?thesis by (auto simp: column_def)
    qed
  next
    fix v
    assume "v \<in> set (column k L) \<union> {v \<in> set (column k R). \<forall>u \<in> set (column k L). \<not> key_match u v}"
    then show "v \<in> set (column k m)"
    proof
      assume "v \<in> set (column k L)"
      then obtain l where l: "l \<in> set (rws L)" and v: "v = l ! ?i" by (auto simp: column_def)
      show ?thesis
      proof (cases "\<forall>r \<in> set (rws R). \<not> key_match (l ! ?i) (r ! ?j)")
        case True
        with l have "l @ replicate ?nr NaN \<in> set (rws m)" unfolding rows by blast
        then have "(l @ replicate ?nr NaN) ! ?i \<in> set (column k m)" unfolding colm by (simp del: nth_append)
        then show ?thesis using v i lenL [OF l] by (simp add: nth_append)
      next
        case False
        then obtain r where "r \<in> set (rws R)" "key_match (l ! ?i) (r ! ?j)" by blast
        with l have "l @ remove_nth ?j r \<in> set (rws m)" unfolding rows by blast
        then have "(l @ remove_nth ?j r) ! ?i \<in> set (column k m)" unfolding colm by (simp del: nth_append)
        then show ?thesis using v i lenL [OF l] by (simp add: nth_append)
      qed
    next
      assume "v \<in> {v \<in> set (column k R). \<forall>u \<in> set (column k L). \<not> key_match u v}"
      then obtain r where r: "r \<in> set (rws R)" and v: "v = r ! ?j"
        and no: "\<forall>l \<in> set (rws L). \<not> key_match (l ! ?i) (r ! ?j)"
        by (auto simp: column_def)
      then have "(replicate ?nl NaN)[?i := r ! ?j] @ remove_nth ?j r \<in> set (rws m)"
        unfolding rows by blast
      then have "((replicate ?nl NaN)[?i := r ! ?j] @ remove_nth ?j r) ! ?i \<in> set (column k m)"
        unfolding colm by (simp del: nth_append)
      then show ?thesis using v i by (simp add: nth_append)
    qed
  qed
qed

lemma merge_step_Inr:
  assumes f: "find (\<lambda>col. col \<in> set (cols df) \<and> col \<in> set (cols chunk)) identifier_names = Some k"
    and ms: "merge_step df chunk = Inr merged"
  obtains m where "pandas_merge OuterJoin k ([], ''_dup'') df chunk = Inr m"
    and "merged = select_columns (\<lambda>c. \<not> endswith c ''_dup'') m"
  using ms unfolding merge_step_shared(1) [OF f]
  by (auto simp: bind_err_def split: sum.splits)

lemma select_row_nth:
  assumes "rect m" and "row \<in> set (rws (select_columns keep m))"
  shows "\<exists>mf \<in> set (rws m). \<forall>c \<in> set (cols (select_columns keep m)).
            row ! index_of c (cols (select_columns keep m)) = mf ! index_of c (cols m)"
proof -
  from assms(2) obtain mf where mf: "mf \<in> set (rws m)"
    and row: "row = map snd (filter (\<lambda>(c, v). keep c) (zip (cols m) mf))"
    by (auto simp: select_columns_def)
  have len: "length mf = length (cols m)"
    using assms(1) mf by (simp add: rect_def list_all_iff)
  have "row ! index_of c (cols (select_columns keep m)) = mf ! index_of c (cols m)"
    if "c \<in> set (cols (select_columns keep m))" for c
  proof -
    from that have "keep c" "c \<in> set (cols m)" by (simp_all add: select_columns_def)
    then show ?thesis
      unfolding row using len by (simp add: select_columns_def select_nth)
  qed
  with mf show ?thesis by blast
qed

lemma merge_step_outer:
  assumes f: "find (\<lambda>col. col \<in> set (cols df) \<and> col \<in> set (cols chunk)) identifier_names = Some k"
    and ms: "merge_step df chunk = Inr merged"
    and rL: "rect df" and rR: "rect chunk"
  shows "set (column k merged)
           = set (column k df) \<union> {v \<in> set (column k chunk). \<forall>u \<in> set (column k df). \<not> key_match u v}"
    and "\<forall>row \<in> set (rws merged). \<forall>c \<in> set (cols merged).
           c \<notin> set (cols df)
           \<and> (\<forall>u \<in> set (column k chunk). \<not> key_match (row ! index_of k (cols merged)) u)
           \<longrightarrow> row ! index_of c (cols merged) = NaN"
    and "\<forall>row \<in> set (rws merged). \<forall>c \<in> set (cols merged).
           c \<in> set (cols df) \<and> c \<noteq> k
           \<and> (\<forall>u \<in> set (column k df). \<not> key_match (row ! index_of k (cols merged)) u)
           \<longrightarrow> row ! index_of c (cols merged) = NaN"
    and "rect merged" and "k \<in> set (cols merged)"
    and "set (cols merged) \<subseteq> set (cols df) \<union> set (cols chunk)"
proof -
  let ?keep = "\<lambda>c. \<not> endswith c ''_dup''"
  let ?i = "index_of k (cols df)" and ?j = "index_of k (cols chunk)"
  let ?nl = "length (cols df)" and ?nr = "length (cols chunk) - 1"
  let ?rn = "map (\<lambda>c. if c \<in> set (cols df) then c @ ''_dup'' else c) (remove_nth ?j (cols chunk))"
  from f ms obtain m where pm: "pandas_merge OuterJoin k ([], ''_dup'') df chunk = Inr m"
    and merged: "merged = select_columns ?keep m"
    by (rule merge_step_Inr)
  note sh = merge_step_shared [OF f]
  have rm: "rect m" using pm rL rR by (rule rect_outer_merge)
  have cm: "cols m = cols df @ ?rn" by (rule outer_merge_shape(1) [OF pm])
  have km: "k \<in> set (cols m)" using sh(2) by (simp add: cm)
  have kk: "?keep k" using sh(4) by (rule identifier_not_dup)
  have i: "?i < ?nl" using sh(2) by (rule index_of_less)
  have j: "?j < length (cols chunk)" using sh(3) by (rule index_of_less)
  have lenL: "\<And>l. l \<in> set (rws df) \<Longrightarrow> length l = ?nl"
    using rL by (simp add: rect_def list_all_iff)
  have len_rn: "length ?rn = ?nr" using j by (simp add: remove_nth_length)
  show "rect merged" unfolding merged using rm by (rule rect_select_columns)
  show kmerged: "k \<in> set (cols merged)" using km kk by (simp add: merged select_columns_def)
  show "set (cols merged) \<subseteq> set (cols df) \<union> set (cols chunk)"
  proof
    fix c assume "c \<in> set (cols merged)"
    then have c: "c \<in> set (cols m)" "?keep c" by (simp_all add: merged select_columns_def)
    show "c \<in> set (cols df) \<union> set (cols chunk)"
    proof (cases "c \<in> set (cols df)")
      case True then show ?thesis by simp
    next
      case False
      with c(1) have "c \<in> set ?rn" by (simp add: cm)
      then obtain c' where c': "c' \<in> set (remove_nth ?j (cols chunk))"
        and eq: "c = (if c' \<in> set (cols df) then c' @ ''_dup'' else c')" by auto
      have "c' \<notin> set (cols df)"
      proof
        assume "c' \<in> set (cols df)"
        with eq have "c = c' @ ''_dup''" by simp
        then have "endswith c ''_dup''" by (simp only: endswith_append)
        with c(2) show False by simp
      qed
      with eq c' set_remove_nth_subset [of ?j "cols chunk"] show ?thesis by auto
    qed
  qed
  have "column k merged = column k m"
    unfolding merged using rm km kk by (rule column_select_columns)
  then show "set (column k merged)
           = set (column k df) \<union> {v \<in> set (column k chunk). \<forall>u \<in> set (column k df). \<not> key_match u v}"
    using outer_merge_keys [OF pm rL rR] by simp
  have rows: "mf \<in> set (rws m) \<longleftrightarrow>
       (\<exists>l \<in> set (rws df). (\<forall>r \<in> set (rws chunk). \<not> key_match (l ! ?i) (r ! ?j)) \<and> mf = l @ replicate ?nr NaN)
     \<or> (\<exists>l \<in> set (rws df). \<exists>r \<in> set (rws chunk). key_match (l ! ?i) (r ! ?j) \<and> mf = l @ remove_nth ?j r)
     \<or> (\<exists>r \<in> set (rws chunk). (\<forall>l \<in> set (rws df). \<not> key_match (l ! ?i) (r ! ?j))
            \<and> mf = (replicate ?nl NaN)[?i := r ! ?j] @ remove_nth ?j r)" for mf
    unfolding outer_merge_shape(2) [OF pm] by (rule outer_rows_iff)
  have ikm: "index_of k (cols m) = ?i" by (rule outer_merge_shape(3) [OF pm])
  show "\<forall>row \<in> set (rws merged). \<forall>c \<in> set (cols merged).
           c \<notin> set (cols df)
           \<and> (\<forall>u \<in> set (column k chunk). \<not> key_match (row ! index_of k (cols merged)) u)
           \<longrightarrow> row ! index_of c (cols merged) = NaN"
  proof (intro ballI impI, elim conjE)
    fix row c
    assume row: "row \<in> set (rws merged)" and c: "c \<in> set (cols merged)"
      and cdf: "c \<notin> set (cols df)"
      and no: "\<forall>u \<in> set (column k chunk). \<not> key_match (row ! index_of k (cols merged)) u"
    from select_row_nth [OF rm row [unfolded merged]] obtain mf where mf: "mf \<in> set (rws m)"
      and at': "\<forall>c \<in> set (cols merged). row ! index_of c (cols merged) = mf ! index_of c (cols m)"
      unfolding merged by blast
    note at = at' [rule_format]
    have key: "row ! index_of k (cols merged) = mf ! ?i" using at [OF kmerged] ikm by simp
    from c have "c \<in> set (cols m)" by (simp add: merged select_columns_def)
    with cdf have crn: "c \<in> set ?rn" by (simp add: cm)
    have idx: "index_of c (cols m) = ?nl + index_of c ?rn"
      unfolding cm using cdf by (rule index_of_append_right)
    have q: "index_of c ?rn < ?nr" using index_of_less [OF crn] len_rn by simp
    from mf [unfolded rows] have "mf ! (?nl + index_of c ?rn) = NaN"
    proof (elim disjE bexE conjE)
      fix l assume "l \<in> set (rws df)" "mf = l @ replicate ?nr NaN"
      then show ?thesis using lenL q by (simp add: nth_append)
    next
      fix l r assume l: "l \<in> set (rws df)" and r: "r \<in> set (rws chunk)"
        and km: "key_match (l ! ?i) (r ! ?j)" and "mf = l @ remove_nth ?j r"
      then have "mf ! ?i = l ! ?i" using i lenL by (simp add: nth_append)
      moreover have "r ! ?j \<in> set (column k chunk)" using r by (simp add: column_def)
      ultimately show ?thesis using no km key by auto
    next
      fix r assume r: "r \<in> set (rws chunk)"
        and "mf = (replicate ?nl NaN)[?i := r ! ?j] @ remove_nth ?j r"
      then have "mf ! ?i = r ! ?j" using i by (simp add: nth_append)
      moreover have "r ! ?j \<in> set (column k chunk)" using r by (simp add: column_def)
      ultimately show ?thesis using no key key_match_refl [of "r ! ?j"] by auto
    qed
    then show "row ! index_of c (cols merged) = NaN" using at [OF c] idx by simp
  qed
  show "\<forall>row \<in> set (rws merged). \<forall>c \<in> set (cols merged).
           c \<in> set (cols df) \<and> c \<noteq> k
           \<and> (\<forall>u \<in> set (column k df). \<not> key_match (row ! index_of k (cols merged)) u)
           \<longrightarrow> row ! index_of c (cols merged) = NaN"
  proof (intro ballI impI, elim conjE)
    fix row c
    assume row: "row \<in> set (rws merged)" and c: "c \<in> set (cols merged)"
      and cdf: "c \<in> set (cols df)" and ck: "c \<noteq> k"
      and no: "\<forall>u \<in> set (column k df). \<not> key_match (row ! index_of k (cols merged)) u"
    from select_row_nth [OF rm row [unfolded merged]] obtain mf where mf: "mf \<in> set (rws m)"
      and at': "\<forall>c \<in> set (cols merged). row ! index_of c (cols merged) = mf ! index_of c (cols m)"
      unfolding merged by blast
    note at = at' [rule_format]
    have key: "row ! index_of k (cols merged) = mf ! ?i" using at [OF kmerged] ikm by simp
    have idx: "index_of c (cols m) = index_of c (cols df)"
      unfolding cm using cdf by (rule index_of_append_left)
    have p: "index_of c (cols df) < ?nl" using cdf by (rule index_of_less)
    have pi: "index_of c (cols df) \<noteq> ?i" using cdf ck by (rule index_of_neq)
    from mf [unfolded rows] have "mf ! index_of c (cols df) = NaN"
    proof (elim disjE bexE conjE)
      fix l assume l: "l \<in> set (rws df)" and "mf = l @ replicate ?nr NaN"
      then have "mf ! ?i = l ! ?i" using i lenL by (simp add: nth_append)
      moreover have "l ! ?i \<in> set (column k df)" using l by (simp add: column_def)
      ultimately show ?thesis using no key key_match_refl [of "l ! ?i"] by auto
    next
      fix l r assume l: "l \<in> set (rws df)" and "mf = l @ remove_nth ?j r"
      then have "mf ! ?i = l ! ?i" using i lenL by (simp add: nth_append)
      moreover have "l ! ?i \<in> set (column k df)" using l by (simp add: column_def)
      ultimately show ?thesis using no key key_match_refl [of "l ! ?i"] by auto
    next
      fix r assume "mf = (replicate ?nl NaN)[?i := r ! ?j] @ remove_nth ?j r"
      then show ?thesis using p pi by (simp add: nth_append)
    qed
    then show "row ! index_of c (cols merged) = NaN" using at [OF c] idx by simp
  qed
qed

lemma find_unique:
  "k \<in> set xs \<Longrightarrow> P k \<Longrightarrow> \<forall>x \<in> set xs. P x \<longrightarrow> x = k \<Longrightarrow> find P xs = Some k"
proof (induction xs)
  case Nil
  then show ?case by simp
next
  case (Cons a xs)
  show ?case
  proof (cases "P a")
    case True
    with Cons.prems(3) have "a = k" by simp
    with True show ?thesis by simp
  next
    case False
    with Cons.prems(2) have "a \<noteq> k" by blast
    with Cons.prems(1) have "k \<in> set xs" by simp
    moreover have "\<forall>x \<in> set xs. P x \<longrightarrow> x = k" using Cons.prems(3) by simp
    ultimately have "find P xs = Some k" using Cons.prems(2) by (intro Cons.IH)
    with False show ?thesis by simp
  qed
qed

lemma key_match_notna: "\<not> isna v \<Longrightarrow> key_match u v = (u = v)"
  by (auto simp: key_match_def)

lemma merge_step_identifiers:
  assumes f: "find (\<lambda>col. col \<in> set (cols df) \<and> col \<in> set (cols chunk)) identifier_names = Some k"
    and ms: "merge_step df chunk = Inr merged"
    and rL: "rect df" and rR: "rect chunk" and v: "\<not> isna v"
  shows "v \<in> set (column k merged) \<longleftrightarrow> v \<in> set (column k df) \<or> v \<in> set (column k chunk)"
proof -
  have eq: "set (column k merged)
      = set (column k df) \<union> {v \<in> set (column k chunk). \<forall>u \<in> set (column k df). \<not> key_match u v}"
    using f ms rL rR by (rule merge_step_outer(1))
  show ?thesis
  proof
    assume "v \<in> set (column k merged)"
    then show "v \<in> set (column k df) \<or> v \<in> set (column k chunk)"
      unfolding eq by blast
  next
    assume a: "v \<in> set (column k df) \<or> v \<in> set (column k chunk)"
    show "v \<in> set (column k merged)"
    proof (cases "v \<in> set (column k df)")
      case True
      then show ?thesis unfolding eq by simp
    next
      case False
      then have "\<forall>u \<in> set (column k df). \<not> key_match u v"
        using v by (auto simp: key_match_def)
      with a False show ?thesis unfolding eq by simp
    qed
  qed
qed

lemma merge_chunks_identifiers:
  assumes "k \<in> set identifier_names"
    and "\<forall>t \<in> set (df # chunks). only_identifier k t"
    and "merge_chunks df chunks = Inr res"
  shows "only_identifier k res
     \<and> (\<forall>v. \<not> isna v \<longrightarrow> (v \<in> set (column k res) \<longleftrightarrow> (\<exists>t \<in> set (df # chunks). v \<in> set (column k t))))"
  using assms(2,3)
proof (induction chunks arbitrary: df)
  case Nil
  then show ?case by simp
next
  case (Cons c chunks)
  from Cons.prems(2) obtain df' where step: "merge_step df c = Inr df'"
    and rest: "merge_chunks df' chunks = Inr res"
    by (auto simp: bind_err_def split: sum.splits)
  have odf: "only_identifier k df" and oc: "only_identifier k c"
    using Cons.prems(1) by simp_all
  have "k \<in> set (cols df) \<and> k \<in> set (cols c)"
    using odf oc by (simp add: only_identifier_def)
  moreover have "\<forall>x \<in> set identifier_names. x \<in> set (cols df) \<and> x \<in> set (cols c) \<longrightarrow> x = k"
    using odf by (simp add: only_identifier_def)
  ultimately have f: "find (\<lambda>col. col \<in> set (cols df) \<and> col \<in> set (cols c)) identifier_names = Some k"
    by (rule find_unique [where P = "\<lambda>col. col \<in> set (cols df) \<and> col \<in> set (cols c)", OF assms(1)])
  have rdf: "rect df" and rc: "rect c" using odf oc by (simp_all add: only_identifier_def)
  note out = merge_step_outer [OF f step rdf rc]
  have "k' = k" if "k' \<in> set identifier_names" "k' \<in> set (cols df')" for k'
  proof -
    from that(2) out(6) have "k' \<in> set (cols df) \<or> k' \<in> set (cols c)" by auto
    moreover have "k' \<in> set (cols df) \<longrightarrow> k' = k" "k' \<in> set (cols c) \<longrightarrow> k' = k"
      using that(1) odf oc by (simp_all add: only_identifier_def)
    ultimately show ?thesis by blast
  qed
  with out(4,5) have odf': "only_identifier k df'"
    unfolding only_identifier_def by simp
  then have "\<forall>t \<in> set (df' # chunks). only_identifier k t"
    using Cons.prems(1) by simp
  from Cons.IH [OF this rest]
  have res: "only_identifier k res"
    and ids: "\<And>v. \<not> isna v \<Longrightarrow>
       (v \<in> set (column k res) \<longleftrightarrow> (\<exists>t \<in> set (df' # chunks). v \<in> set (column k t)))"
    by simp_all
  have "v \<in> set (column k res) \<longleftrightarrow> (\<exists>t \<in> set (df # c # chunks). v \<in> set (column k t))"
    if "\<not> isna v" for v
  proof -
    have "v \<in> set (column k res)
        \<longleftrightarrow> v \<in> set (column k df') \<or> (\<exists>t \<in> set chunks. v \<in> set (column k t))"
      using ids [OF that] by simp
    also have "v \<in> set (column k df') \<longleftrightarrow> v \<in> set (column k df) \<or> v \<in> set (column k c)"
      using f step rdf rc that by (rule merge_step_identifiers)
    finally show ?thesis by simp
  qed
  with res show ?case by simp
qed

lemma merge_step_rows_from_left:
  assumes f: "find (\<lambda>col. col \<in> set (cols df) \<and> col \<in> set (cols chunk)) identifier_names = Some k"
    and ms: "merge_step df chunk = Inr merged"
    and rL: "rect df" and rR: "rect chunk"
  shows "\<forall>row \<in> set (rws merged). \<forall>c \<in> set (cols merged).
           c \<in> set (cols df) \<and> c \<noteq> k
           \<longrightarrow> row ! index_of c (cols merged) = NaN
               \<or> (\<exists>l \<in> set (rws df). l ! index_of k (cols df) = row ! index_of k (cols merged)
                      \<and> l ! index_of c (cols df) = row ! index_of c (cols merged))"
    and "\<forall>c \<in> set (cols df). \<not> endswith c ''_dup'' \<longrightarrow> c \<in> set (cols merged)"
    and "\<forall>c \<in> set (cols chunk). c \<notin> set (cols df) \<and> \<not> endswith c ''_dup'' \<longrightarrow> c \<in> set (cols merged)"
    and "\<forall>c \<in> set (cols merged). \<not> endswith c ''_dup''"
proof -
  let ?keep = "\<lambda>c. \<not> endswith c ''_dup''"
  let ?i = "index_of k (cols df)" and ?j = "index_of k (cols chunk)"
  let ?nl = "length (cols df)" and ?nr = "length (cols chunk) - 1"
  let ?rc = "remove_nth ?j (cols chunk)"
  let ?rn = "map (\<lambda>c. if c \<in> set (cols df) then c @ ''_dup'' else c) ?rc"
  from f ms obtain m where pm: "pandas_merge OuterJoin k ([], ''_dup'') df chunk = Inr m"
    and merged: "merged = select_columns ?keep m"
    by (rule merge_step_Inr)
  note sh = merge_step_shared [OF f]
  note out = merge_step_outer [OF f ms rL rR]
  have rm: "rect m" using pm rL rR by (rule rect_outer_merge)
  have cm: "cols m = cols df @ ?rn" by (rule outer_merge_shape(1) [OF pm])
  have cmerged: "cols merged = filter ?keep (cols df @ ?rn)"
    by (simp add: merged select_columns_def cm)
  have i: "?i < ?nl" using sh(2) by (rule index_of_less)
  have lenL: "\<And>l. l \<in> set (rws df) \<Longrightarrow> length l = ?nl"
    using rL by (simp add: rect_def list_all_iff)
  have ikm: "index_of k (cols m) = ?i" by (rule outer_merge_shape(3) [OF pm])
  have rows: "mf \<in> set (rws m) \<longleftrightarrow>
       (\<exists>l \<in> set (rws df). (\<forall>r \<in> set (rws chunk). \<not> key_match (l ! ?i) (r ! ?j)) \<and> mf = l @ replicate ?nr NaN)
     \<or> (\<exists>l \<in> set (rws df). \<exists>r \<in> set (rws chunk). key_match (l ! ?i) (r ! ?j) \<and> mf = l @ remove_nth ?j r)
     \<or> (\<exists>r \<in> set (rws chunk). (\<forall>l \<in> set (rws df). \<not> key_match (l ! ?i) (r ! ?j))
            \<and> mf = (replicate ?nl NaN)[?i := r ! ?j] @ remove_nth ?j r)" for mf
    unfolding outer_merge_shape(2) [OF pm] by (rule outer_rows_iff)
  show "\<forall>c \<in> set (cols merged). \<not> endswith c ''_dup''"
    unfolding merged by (simp add: select_columns_def)
  show "\<forall>c \<in> set (cols df). \<not> endswith c ''_dup'' \<longrightarrow> c \<in> set (cols merged)"
    by (simp add: cmerged)
  show "\<forall>c \<in> set (cols chunk). c \<notin> set (cols df) \<and> \<not> endswith c ''_dup'' \<longrightarrow> c \<in> set (cols merged)"
  proof (intro ballI impI, elim conjE)
    fix c assume c: "c \<in> set (cols chunk)" and ndf: "c \<notin> set (cols df)" and keep: "\<not> endswith c ''_dup''"
    from ndf sh(2) have "c \<noteq> k" by blast
    have "c \<in> set ?rc"
    proof -
      from c obtain p where p: "p < length (cols chunk)" "cols chunk ! p = c"
        by (auto simp: in_set_conv_nth)
      have "p \<noteq> ?j" using p(2) nth_index_of [OF sh(3)] \<open>c \<noteq> k\<close> by auto
      then consider "p < ?j" | "?j < p" by arith
      then show ?thesis
      proof cases
        case 1
        then have "c \<in> set (take ?j (cols chunk))"
          using p by (auto simp: in_set_conv_nth intro!: exI [of _ p])
        then show ?thesis by (simp add: remove_nth_def)
      next
        case 2
        then have "c \<in> set (drop (Suc ?j) (cols chunk))"
          using p by (auto simp: in_set_conv_nth intro!: exI [of _ "p - Suc ?j"])
        then show ?thesis by (simp add: remove_nth_def)
      qed
    qed
    then have "c \<in> set ?rn" using ndf by (auto simp: image_iff intro!: bexI [of _ c])
    then show "c \<in> set (cols merged)" using keep by (simp add: cmerged)
  qed
  show "\<forall>row \<in> set (rws merged). \<forall>c \<in> set (cols merged).
           c \<in> set (cols df) \<and> c \<noteq> k
           \<longrightarrow> row ! index_of c (cols merged) = NaN
               \<or> (\<exists>l \<in> set (rws df). l ! index_of k (cols df) = row ! index_of k (cols merged)
                      \<and> l ! index_of c (cols df) = row ! index_of c (cols merged))"
  proof (intro ballI impI, elim conjE)
    fix row c
    assume row: "row \<in> set (rws merged)" and c: "c \<in> set (cols merged)"
      and cdf: "c \<in> set (cols df)" and ck: "c \<noteq> k"
    from select_row_nth [OF rm row [unfolded merged]] obtain mf where mf: "mf \<in> set (rws m)"
      and at': "\<forall>c \<in> set (cols merged). row ! index_of c (cols merged) = mf ! index_of c (cols m)"
      unfolding merged by blast
    note at = at' [rule_format]
    have key: "row ! index_of k (cols merged) = mf ! ?i" using at [OF out(5)] ikm by simp
    have idx: "index_of c (cols m) = index_of c (cols df)"
      unfolding cm using cdf by (rule index_of_append_left)
    have val: "row ! index_of c (cols merged) = mf ! index_of c (cols df)"
      using at [OF c] idx by simp
    have p: "index_of c (cols df) < ?nl" using cdf by (rule index_of_less)
    have pi: "index_of c (cols df) \<noteq> ?i" using cdf ck by (rule index_of_neq)
    from mf [unfolded rows]
    have "mf ! index_of c (cols df) = NaN
        \<or> (\<exists>l \<in> set (rws df). l ! ?i = mf ! ?i \<and> l ! index_of c (cols df) = mf ! index_of c (cols df))"
    proof (elim disjE bexE conjE)
      fix l assume l: "l \<in> set (rws df)" and "mf = l @ replicate ?nr NaN"
      then have "l ! ?i = mf ! ?i" "l ! index_of c (cols df) = mf ! index_of c (cols df)"
        using i p lenL by (simp_all add: nth_append)
      with l show ?thesis by blast
    next
      fix l r assume l: "l \<in> set (rws df)" and "mf = l @ remove_nth ?j r"
      then have "l ! ?i = mf ! ?i" "l ! index_of c (cols df) = mf ! index_of c (cols df)"
        using i p lenL by (simp_all add: nth_append)
      with l show ?thesis by blast
    next
      fix r assume "mf = (replicate ?nl NaN)[?i := r ! ?j] @ remove_nth ?j r"
      then have "mf ! index_of c (cols df) = NaN" using p pi by (simp add: nth_append)
      then show ?thesis by simp
    qed
    then show "row ! index_of c (cols merged) = NaN
               \<or> (\<exists>l \<in> set (rws df). l ! index_of k (cols df) = row ! index_of k (cols merged)
                      \<and> l ! index_of c (cols df) = row ! index_of c (cols merged))"
      unfolding key val .
  qed
qed

lemma merge_step_only_identifier:
  assumes k: "k \<in> set identifier_names"
    and odf: "only_identifier k df" and oc: "only_identifier k c"
    and step: "merge_step df c = Inr m"
  shows "find (\<lambda>col. col \<in> set (cols df) \<and> col \<in> set (cols c)) identifier_names = Some k"
    and "only_identifier k m"
proof -
  have "k \<in> set (cols df) \<and> k \<in> set (cols c)"
    using odf oc by (simp add: only_identifier_def)
  moreover have "\<forall>x \<in> set identifier_names. x \<in> set (cols df) \<and> x \<in> set (cols c) \<longrightarrow> x = k"
    using odf by (simp add: only_identifier_def)
  ultimately show f: "find (\<lambda>col. col \<in> set (cols df) \<and> col \<in> set (cols c)) identifier_names = Some k"
    by (rule find_unique [where P = "\<lambda>col. col \<in> set (cols df) \<and> col \<in> set (cols c)", OF k])
  have rdf: "rect df" and rc: "rect c" using odf oc by (simp_all add: only_identifier_def)
  note out = merge_step_outer [OF f step rdf rc]
  have "k' = k" if "k' \<in> set identifier_names" "k' \<in> set (cols m)" for k'
  proof -
    from that(2) out(6) have "k' \<in> set (cols df) \<or> k' \<in> set (cols c)" by auto
    moreover have "k' \<in> set (cols df) \<longrightarrow> k' = k" "k' \<in> set (cols c) \<longrightarrow> k' = k"
      using that(1) odf oc by (simp_all add: only_identifier_def)
    ultimately show ?thesis by blast
  qed
  with out(4,5) show "only_identifier k m"
    unfolding only_identifier_def by simp
qed

lemma merge_chunks_cols_keep:
  assumes "k \<in> set identifier_names" and "only_identifier k acc"
    and "\<forall>t \<in> set ts. only_identifier k t" and "merge_chunks acc ts = Inr res" and "ts \<noteq> []"
  shows "\<forall>c \<in> set (cols res). \<not> endswith c ''_dup''"
  using assms(2-5)
proof (induction ts arbitrary: acc)
  case Nil
  then show ?case by simp
next
  case (Cons c1 rest)
  from Cons.prems(3) obtain m where step: "merge_step acc c1 = Inr m"
    and more: "merge_chunks m rest = Inr res"
    by (auto simp: bind_err_def split: sum.splits)
  have oc: "only_identifier k c1" and orest: "\<forall>t \<in> set rest. only_identifier k t"
    using Cons.prems(2) by simp_all
  note so = merge_step_only_identifier [OF assms(1) Cons.prems(1) oc step]
  have racc: "rect acc" and rc: "rect c1"
    using Cons.prems(1) oc by (simp_all add: only_identifier_def)
  show ?case
  proof (cases "rest = []")
    case True
    with more have "res = m" by simp
    then show ?thesis using merge_step_rows_from_left(4) [OF so(1) step racc rc] by simp
  next
    case False
    from Cons.IH [OF so(2) orest more False] show ?thesis .
  qed
qed

lemma merge_chunks_missing:
  assumes k: "k \<in> set identifier_names"
    and "only_identifier k acc" and "\<forall>t \<in> set ts. only_identifier k t"
    and "merge_chunks acc ts = Inr res"
    and "row \<in> set (rws res)" and "c \<in> set (cols res)" and "c \<noteq> k"
  shows "(c \<in> set (cols acc) \<longrightarrow>
            row ! index_of c (cols res) = NaN
            \<or> (\<exists>l \<in> set (rws acc). l ! index_of k (cols acc) = row ! index_of k (cols res)
                  \<and> l ! index_of c (cols acc) = row ! index_of c (cols res)))
     \<and> (c \<notin> set (cols acc) \<longrightarrow>
          (\<forall>pre t post. ts = pre @ t # post \<and> (\<forall>t' \<in> set pre. c \<notin> set (cols t')) \<and> c \<in> set (cols t)
              \<and> (\<forall>u \<in> set (column k t). \<not> key_match (row ! index_of k (cols res)) u)
             \<longrightarrow> row ! index_of c (cols res) = NaN))"
  using assms(2-6)
proof (induction ts arbitrary: acc)
  case Nil
  then have "res = acc" by simp
  with Nil.prems(4) show ?case by auto
next
  case (Cons c1 rest)
  from Cons.prems(3) obtain m where step: "merge_step acc c1 = Inr m"
    and more: "merge_chunks m rest = Inr res"
    by (auto simp: bind_err_def split: sum.splits)
  have oc: "only_identifier k c1" and orest: "\<forall>t \<in> set rest. only_identifier k t"
    using Cons.prems(2) by simp_all
  note so = merge_step_only_identifier [OF k Cons.prems(1) oc step]
  have racc: "rect acc" and rc: "rect c1"
    using Cons.prems(1) oc by (simp_all add: only_identifier_def)
  note out = merge_step_outer [OF so(1) step racc rc]
  note left = merge_step_rows_from_left [OF so(1) step racc rc]
  have keep: "\<not> endswith c ''_dup''"
    using merge_chunks_cols_keep [OF k Cons.prems(1,2,3)] Cons.prems(5) by simp
  note IH = Cons.IH [OF so(2) orest more Cons.prems(4,5)]
  have km: "k \<in> set (cols acc)" using Cons.prems(1) by (simp add: only_identifier_def)
  have in_m: "row ! index_of c (cols res) = NaN
      \<or> (\<exists>lm \<in> set (rws m). lm ! index_of k (cols m) = row ! index_of k (cols res)
            \<and> lm ! index_of c (cols m) = row ! index_of c (cols res))"
    if "c \<in> set (cols m)"
    using IH that by blast
  have part1: "row ! index_of c (cols res) = NaN
            \<or> (\<exists>l \<in> set (rws acc). l ! index_of k (cols acc) = row ! index_of k (cols res)
                  \<and> l ! index_of c (cols acc) = row ! index_of c (cols res))"
    if cacc: "c \<in> set (cols acc)"
  proof -
    have cm: "c \<in> set (cols m)" using left(2) cacc keep by blast
    from in_m [OF cm] show ?thesis
    proof
      assume "row ! index_of c (cols res) = NaN"
      then show ?thesis ..
    next
      assume "\<exists>lm \<in> set (rws m). lm ! index_of k (cols m) = row ! index_of k (cols res)
            \<and> lm ! index_of c (cols m) = row ! index_of c (cols res)"
      then obtain lm where lm: "lm \<in> set (rws m)"
        and lk: "lm ! index_of k (cols m) = row ! index_of k (cols res)"
        and lc: "lm ! index_of c (cols m) = row ! index_of c (cols res)" by blast
      from left(1) lm cm cacc assms(7)
      have "lm ! index_of c (cols m) = NaN
          \<or> (\<exists>l \<in> set (rws acc). l ! index_of k (cols acc) = lm ! index_of k (cols m)
                \<and> l ! index_of c (cols acc) = lm ! index_of c (cols m))"
        by blast
      then show ?thesis unfolding lk lc .
    qed
  qed
  have part2: "row ! index_of c (cols res) = NaN"
    if cacc: "c \<notin> set (cols acc)"
      and split: "c1 # rest = pre @ t # post" and first: "\<forall>t' \<in> set pre. c \<notin> set (cols t')"
      and ct: "c \<in> set (cols t)"
      and no: "\<forall>u \<in> set (column k t). \<not> key_match (row ! index_of k (cols res)) u"
    for pre t post
  proof (cases pre)
    case Nil
    with split have t: "t = c1" by simp
    have cm: "c \<in> set (cols m)" using left(3) ct cacc keep unfolding t by blast
    from in_m [OF cm] show ?thesis
    proof
      assume "row ! index_of c (cols res) = NaN"
      then show ?thesis .
    next
      assume "\<exists>lm \<in> set (rws m). lm ! index_of k (cols m) = row ! index_of k (cols res)
            \<and> lm ! index_of c (cols m) = row ! index_of c (cols res)"
      then obtain lm where lm: "lm \<in> set (rws m)"
        and lk: "lm ! index_of k (cols m) = row ! index_of k (cols res)"
        and lc: "lm ! index_of c (cols m) = row ! index_of c (cols res)" by blast
      have "\<forall>u \<in> set (column k c1). \<not> key_match (lm ! index_of k (cols m)) u"
        using no unfolding t lk .
      with out(2) lm cm cacc have "lm ! index_of c (cols m) = NaN" by blast
      then show ?thesis unfolding lc .
    qed
  next
    case (Cons p pre')
    with split have p: "p = c1" and rest: "rest = pre' @ t # post" by simp_all
    have "c \<notin> set (cols c1)" using first Cons p by simp
    with cacc out(6) have "c \<notin> set (cols m)" by blast
    moreover have "\<forall>t' \<in> set pre'. c \<notin> set (cols t')" using first Cons by simp
    ultimately show ?thesis using IH rest ct no by blast
  qed
  from part1 part2 show ?case by blast
qed

lemma merge_chunks_missing_all:
  assumes k: "k \<in> set identifier_names"
    and all: "\<forall>t \<in> set (t0 # ts). only_identifier k t"
    and mc: "merge_chunks t0 ts = Inr res"
  shows "\<forall>row \<in> set (rws res). \<forall>c \<in> set (cols res). \<forall>pre t post.
           c \<noteq> k \<and> t0 # ts = pre @ t # post \<and> (\<forall>t' \<in> set pre. c \<notin> set (cols t'))
           \<and> c \<in> set (cols t)
           \<and> (\<forall>u \<in> set (column k t). \<not> key_match (row ! index_of k (cols res)) u)
           \<longrightarrow> row ! index_of c (cols res) = NaN"
proof (intro ballI allI impI, elim conjE)
  fix row c pre t post
  assume row: "row \<in> set (rws res)" and c: "c \<in> set (cols res)" and ck: "c \<noteq> k"
    and split: "t0 # ts = pre @ t # post" and first: "\<forall>t' \<in> set pre. c \<notin> set (cols t')"
    and ct: "c \<in> set (cols t)"
    and no: "\<forall>u \<in> set (column k t). \<not> key_match (row ! index_of k (cols res)) u"
  have o0: "only_identifier k t0" and ots: "\<forall>t \<in> set ts. only_identifier k t"
    using all by simp_all
  note m = merge_chunks_missing [OF k o0 ots mc row c ck]
  show "row ! index_of c (cols res) = NaN"
  proof (cases pre)
    case Nil
    with split have t: "t = t0" by simp
    from m ct [unfolded t]
    have "row ! index_of c (cols res) = NaN
        \<or> (\<exists>l \<in> set (rws t0). l ! index_of k (cols t0) = row ! index_of k (cols res)
              \<and> l ! index_of c (cols t0) = row ! index_of c (cols res))" by blast
    then show ?thesis
    proof
      assume "row ! index_of c (cols res) = NaN"
      then show ?thesis .
    next
      assume "\<exists>l \<in> set (rws t0). l ! index_of k (cols t0) = row ! index_of k (cols res)
              \<and> l ! index_of c (cols t0) = row ! index_of c (cols res)"
      then obtain l where l: "l \<in> set (rws t0)"
        and lk: "l ! index_of k (cols t0) = row ! index_of k (cols res)" by blast
      from l have "l ! index_of k (cols t0) \<in> set (column k t0)" by (simp add: column_def)
      with no [unfolded t] have "\<not> key_match (row ! index_of k (cols res)) (l ! index_of k (cols t0))"
        by blast
      then show ?thesis unfolding lk by (simp add: key_match_refl)
    qed
  next
    case (Cons p pre')
    with split have p: "p = t0" and ts: "ts = pre' @ t # post" by simp_all
    have "c \<notin> set (cols t0)" using first Cons p by simp
    moreover have "\<forall>t' \<in> set pre'. c \<notin> set (cols t')" using first Cons by simp
    ultimately show ?thesis using m ts ct no by blast
  qed
qed

text \<open>
  Claim C10. The merge across the chunks is an outer join on the shared identifier
  column. Over tables that all carry \<open>k\<close> as their identifier column (and no other
  candidate label): an identifier (a value that is not null) is in the merged table
  exactly when it is in one of the tables; and a row of the merged table whose identifier
  is in no row of a table has \<open>NaN\<close> in every column that this table brought in (every
  column of it that no earlier table has). One step of the loop, on any two tables that
  share an identifier column, is the outer join: the identifiers of the step's result are
  those of the two tables, a row whose identifier is in no row of the chunk has \<open>NaN\<close> in
  the chunk's columns, and a row whose identifier is in no row of the table merged so far
  has \<open>NaN\<close> in that table's other columns.
\<close>

theorem C10_outer_join_of_chunks:
  assumes "k \<in> set identifier_names" and "\<forall>t \<in> set (t0 # ts). only_identifier k t"
    and "merge_chunks t0 ts = Inr res"
  shows "(\<forall>v. \<not> isna v \<longrightarrow>
            (v \<in> set (column k res) \<longleftrightarrow> (\<exists>t \<in> set (t0 # ts). v \<in> set (column k t))))
     \<and> (\<forall>row \<in> set (rws res). \<forall>c \<in> set (cols res). \<forall>pre t post.
           c \<noteq> k \<and> t0 # ts = pre @ t # post \<and> (\<forall>t' \<in> set pre. c \<notin> set (cols t'))
           \<and> c \<in> set (cols t)
           \<and> (\<forall>u \<in> set (column k t). \<not> key_match (row ! index_of k (cols res)) u)
           \<longrightarrow> row ! index_of c (cols res) = NaN)
     \<and> (find (\<lambda>col. col \<in> set (cols df) \<and> col \<in> set (cols chunk)) identifier_names = Some k'
          \<and> merge_step df chunk = Inr merged \<and> rect df \<and> rect chunk
        \<longrightarrow> (\<forall>v. \<not> isna v \<longrightarrow>
               (v \<in> set (column k' merged)
                  \<longleftrightarrow> v \<in> set (column k' df) \<or> v \<in> set (column k' chunk)))
            \<and> (\<forall>row \<in> set (rws merged). \<forall>c \<in> set (cols merged).
                  c \<notin> set (cols df)
                  \<and> (\<forall>u \<in> set (column k' chunk). \<not> key_match (row ! index_of k' (cols merged)) u)
                  \<longrightarrow> row ! index_of c (cols merged) = NaN)
            \<and> (\<forall>row \<in> set (rws merged). \<forall>c \<in> set (cols merged).
                  c \<in> set (cols df) \<and> c \<noteq> k'
                  \<and> (\<forall>u \<in> set (column k' df). \<not> key_match (row ! index_of k' (cols merged)) u)
                  \<longrightarrow> row ! index_of c (cols merged) = NaN))"
proof -
  have ids: "\<forall>v. \<not> isna v \<longrightarrow>
            (v \<in> set (column k res) \<longleftrightarrow> (\<exists>t \<in> set (t0 # ts). v \<in> set (column k t)))"
    using merge_chunks_identifiers [OF assms] by (rule conjunct2)
  have missing: "\<forall>row \<in> set (rws res). \<forall>c \<in> set (cols res). \<forall>pre t post.
           c \<noteq> k \<and> t0 # ts = pre @ t # post \<and> (\<forall>t' \<in> set pre. c \<notin> set (cols t'))
           \<and> c \<in> set (cols t)
           \<and> (\<forall>u \<in> set (column k t). \<not> key_match (row ! index_of k (cols res)) u)
           \<longrightarrow> row ! index_of c (cols res) = NaN"
    using assms by (rule merge_chunks_missing_all)
  have step: "find (\<lambda>col. col \<in> set (cols df) \<and> col \<in> set (cols chunk)) identifier_names = Some k'
          \<and> merge_step df chunk = Inr merged \<and> rect df \<and> rect chunk
        \<longrightarrow> (\<forall>v. \<not> isna v \<longrightarrow>
               (v \<in> set (column k' merged)
                  \<longleftrightarrow> v \<in> set (column k' df) \<or> v \<in> set (column k' chunk)))
            \<and> (\<forall>row \<in> set (rws merged). \<forall>c \<in> set (cols merged).
                  c \<notin> set (cols df)
                  \<and> (\<forall>u \<in> set (column k' chunk). \<not> key_match (row ! index_of k' (cols merged)) u)
                  \<longrightarrow> row ! index_of c (cols merged) = NaN)
            \<and> (\<forall>row \<in> set (rws merged). \<forall>c \<in> set (cols merged).
                  c \<in> set (cols df) \<and> c \<noteq> k'
                  \<and> (\<forall>u \<in> set (column k' df). \<not> key_match (row ! index_of k' (cols merged)) u)
                  \<longrightarrow> row ! index_of c (cols merged) = NaN)"
  proof (intro impI, elim conjE)
    assume a: "find (\<lambda>col. col \<in> set (cols df) \<and> col \<in> set (cols chunk)) identifier_names = Some k'"
      "merge_step df chunk = Inr merged" "rect df" "rect chunk"
    note out = merge_step_outer [OF a]
    have "\<forall>v. \<not> isna v \<longrightarrow>
               (v \<in> set (column k' merged)
                  \<longleftrightarrow> v \<in> set (column k' df) \<or> v \<in> set (column k' chunk))"
      using merge_step_identifiers [OF a] by simp
    then show "(\<forall>v. \<not> isna v \<longrightarrow>
               (v \<in> set (column k' merged)
                  \<longleftrightarrow> v \<in> set (column k' df) \<or> v \<in> set (column k' chunk)))
            \<and> (\<forall>row \<in> set (rws merged). \<forall>c \<in> set (cols merged).
                  c \<notin> set (cols df)
                  \<and> (\<forall>u \<in> set (column k' chunk). \<not> key_match (row ! index_of k' (cols merged)) u)
                  \<longrightarrow> row ! index_of c (cols merged) = NaN)
            \<and> (\<forall>row \<in> set (rws merged). \<forall>c \<in> set (cols merged).
                  c \<in> set (cols df) \<and> c \<noteq> k'
                  \<and> (\<forall>u \<in> set (column k' df). \<not> key_match (row ! index_of k' (cols merged)) u)
                  \<longrightarrow> row ! index_of c (cols merged) = NaN)"
      by (intro conjI out(2) out(3))
  qed
  show ?thesis by (intro conjI ids missing step)
qed

theorem C10_outer_join_of_chunks_witness:
  "find (\<lambda>col. col \<in> set [''B01001_001E'', ''NAME'', ''zip code tabulation area'']
                 \<and> col \<in> set [''B01001_002E'', ''NAME'', ''zip code tabulation area''])
     identifier_names = Some ''zip code tabulation area''
   \<and> merge_chunks
       \<lparr>cols = [''B01001_001E'', ''NAME'', ''zip code tabulation area''],
         rws = [[Str ''120'', Str ''ZCTA5 64101'', Str ''64101''],
                [Str ''7'', Str ''ZCTA5 64102'', Str ''64102'']]\<rparr>
       [\<lparr>cols = [''B01001_002E'', ''NAME'', ''zip code tabulation area''],
         rws = [[Str ''60'', Str ''ZCTA5 64101'', Str ''64101''],
                [Str ''4'', Str ''ZCTA5 64105'', Str ''64105'']]\<rparr> :: unit table]
     = Inr \<lparr>cols = [''B01001_001E'', ''NAME'', ''zip code tabulation area'', ''B01001_002E''],
            rws = [[Str ''120'', Str ''ZCTA5 64101'', Str ''64101'', Str ''60''],
                   [Str ''7'', Str ''ZCTA5 64102'', Str ''64102'', NaN],
                   [NaN, NaN, Str ''64105'', Str ''4'']]\<rparr>
   \<and> only_identifier ''zip code tabulation area''
       (\<lparr>cols = [''B01001_001E'', ''NAME'', ''zip code tabulation area''],
         rws = [[Str ''120'', Str ''ZCTA5 64101'', Str ''64101''],
                [Str ''7'', Str ''ZCTA5 64102'', Str ''64102'']]\<rparr> :: unit table)
   \<and> only_identifier ''zip code tabulation area''
       (\<lparr>cols = [''B01001_002E'', ''NAME'', ''zip code tabulation area''],
         rws = [[Str ''60'', Str ''ZCTA5 64101'', Str ''64101''],
                [Str ''4'', Str ''ZCTA5 64105'', Str ''64105'']]\<rparr> :: unit table)
   \<and> set (column ''zip code tabulation area''
        (\<lparr>cols = [''B01001_001E'', ''NAME'', ''zip code tabulation area'', ''B01001_002E''],
          rws = [[Str ''120'', Str ''ZCTA5 64101'', Str ''64101'', Str ''60''],
                 [Str ''7'', Str ''ZCTA5 64102'', Str ''64102'', NaN],
                 [NaN, NaN, Str ''64105'', Str ''4'']]\<rparr> :: unit table))
       = {Str ''64101'', Str ''64102'', Str ''64105''}"
  using C10_outer_join_of_chunks [of "''zip code tabulation area''"
      "\<lparr>cols = [''B01001_001E'', ''NAME'', ''zip code tabulation area''],
        rws = [[Str ''120'', Str ''ZCTA5 64101'', Str ''64101''],
               [Str ''7'', Str ''ZCTA5 64102'', Str ''64102'']]\<rparr>"
      "[\<lparr>cols = [''B01001_002E'', ''NAME'', ''zip code tabulation area''],
         rws = [[Str ''60'', Str ''ZCTA5 64101'', Str ''64101''],
                [Str ''4'', Str ''ZCTA5 64105'', Str ''64105'']]\<rparr> :: unit table]"
      "\<lparr>cols = [''B01001_001E'', ''NAME'', ''zip code tabulation area'', ''B01001_002E''],
        rws = [[Str ''120'', Str ''ZCTA5 64101'', Str ''64101'', Str ''60''],
               [Str ''7'', Str ''ZCTA5 64102'', Str ''64102'', NaN],
               [NaN, NaN, Str ''64105'', Str ''4'']]\<rparr>"
      "\<lparr>cols = [''B01001_001E'', ''NAME'', ''zip code tabulation area''],
        rws = [[Str ''120'', Str ''ZCTA5 64101'', Str ''64101''],
               [Str ''7'', Str ''ZCTA5 64102'', Str ''64102'']]\<rparr>"
      "\<lparr>cols = [''B01001_002E'', ''NAME'', ''zip code tabulation area''],
        rws = [[Str ''60'', Str ''ZCTA5 64101'', Str ''64101''],
               [Str ''4'', Str ''ZCTA5 64105'', Str ''64105'']]\<rparr> :: unit table"
      "''zip code tabulation area''"
      "\<lparr>cols = [''B01001_001E'', ''NAME'', ''zip code tabulation area'', ''B01001_002E''],
        rws = [[Str ''120'', Str ''ZCTA5 64101'', Str ''64101'', Str ''60''],
               [Str ''7'', Str ''ZCTA5 64102'', Str ''64102'', NaN],
               [NaN, NaN, Str ''64105'', Str ''4'']]\<rparr>"]
    merge_step_example
  by (simp add: identifier_names_def rect_def column_def only_identifier_def bind_err_def)

section \<open>The failure policy of the fetch\<close>

lemma fold_max_const:
  "\<forall>x \<in> set xs. x = n \<Longrightarrow> fold max xs a = (if xs = [] then a else max a (n::nat))"
proof (induction xs arbitrary: a)
  case Nil
  then show ?case by simp
next
  case (Cons x xs)
  then show ?case by (cases "xs = []") (auto simp: max.commute max.assoc)
qed

lemma DataFrame_well_formed:
  assumes "well_formed (Payload header body)" and "body \<noteq> []"
  shows "DataFrame body header = Inr \<lparr>cols = header, rws = map (map cell_of_json) body\<rparr>"
proof -
  have len: "\<forall>r \<in> set body. length r = length header"
    using assms(1) by (simp add: list_all_iff)
  then have "fold max (map length body) 0 = length header"
    using assms(2) fold_max_const [of "map length body" "length header" 0] by simp
  moreover have "map (\<lambda>r. map cell_of_json r @ replicate (length header - length r) PyNone) body
      = map (map cell_of_json) body"
    using len by simp
  ultimately show ?thesis by (simp add: DataFrame_def Let_def)
qed

lemma fetch_chunks_none_usable:
  "(fetch_chunks api_key http_get n chunks = (Inr [] :: error + 'o table list))
     \<longleftrightarrow> \<not> list_ex usable (chunk_responses api_key http_get n chunks)"
proof (induction chunks arbitrary: n)
  case Nil
  show ?case by simp
next
  case (Cons chunk rest)
  show ?case
  proof (cases "http_get n (build_census_api_url api_key chunk GEO_LEVEL_ZIPCODE)")
    case RequestFailed
    then show ?thesis using Cons.IH [of "Suc n"] by simp
  next
    case EmptyPayload
    then show ?thesis using Cons.IH [of "Suc n"] by simp
  next
    case (Payload header body)
    show ?thesis
    proof (cases "body = []")
      case True
      with Payload show ?thesis using Cons.IH [of "Suc n"] by simp
    next
      case False
      with Payload show ?thesis
        by (simp add: bind_err_def split: sum.splits)
    qed
  qed
qed

lemma DataFrame_error: "DataFrame body header = Inl e \<Longrightarrow> \<exists>s. e = ValueError s"
  by (auto simp: DataFrame_def Let_def split: if_splits)

lemma fetch_chunks_error:
  "(fetch_chunks api_key http_get n chunks :: error + 'o table list) = Inl e \<Longrightarrow> \<exists>s. e = ValueError s"
proof (induction chunks arbitrary: n)
  case Nil
  then show ?case by simp
next
  case (Cons chunk rest)
  show ?case
  proof (cases "http_get n (build_census_api_url api_key chunk GEO_LEVEL_ZIPCODE)")
    case RequestFailed
    with Cons show ?thesis by simp
  next
    case EmptyPayload
    with Cons show ?thesis by simp
  next
    case (Payload header body)
    show ?thesis
    proof (cases "body = []")
      case True
      with Payload Cons show ?thesis by simp
    next
      case False
      show ?thesis
      proof (cases "DataFrame body header :: error + 'o table")
        case (Inl e')
        with Payload False Cons.prems have "e = e'" by (simp add: bind_err_def)
        with Inl show ?thesis by (auto dest: DataFrame_error)
      next
        case (Inr df)
        with Payload False Cons.prems
        have "(fetch_chunks api_key http_get (Suc n) rest :: error + 'o table list) = Inl e"
          by (simp add: bind_err_def split: sum.splits)
        then show ?thesis by (rule Cons.IH)
      qed
    qed
  qed
qed

lemma pandas_merge_error: "pandas_merge h k sfx L R = Inl e \<Longrightarrow> e \<noteq> Exception s"
  by (auto simp: pandas_merge_def Let_def split: if_splits)

lemma merge_step_error: "merge_step df chunk = Inl e \<Longrightarrow> e \<noteq> Exception s"
  by (auto simp: merge_step_def bind_err_def split: option.splits sum.splits
      dest: pandas_merge_error)

lemma merge_chunks_error: "merge_chunks df chunks = Inl e \<Longrightarrow> e \<noteq> Exception s"
proof (induction chunks arbitrary: df)
  case Nil
  then show ?case by simp
next
  case (Cons c chunks)
  show ?case
  proof (cases "merge_step df c")
    case (Inl e')
    with Cons.prems have "e = e'" by (simp add: bind_err_def)
    with Inl show ?thesis by (auto dest: merge_step_error)
  next
    case (Inr df')
    with Cons.prems have "merge_chunks df' chunks = Inl e" by (simp add: bind_err_def)
    then show ?thesis by (rule Cons.IH)
  qed
qed

lemma fetch_no_data_iff:
  assumes "max_vars \<noteq> 0"
  shows "(fetch_acs_data api_key http_get variables max_vars
            = (Inl (Exception ''No data was successfully fetched from Census API'') :: error + 'o table))
     \<longleftrightarrow> \<not> list_ex usable (chunk_responses api_key http_get 0 (variable_chunks variables max_vars))"
proof -
  let ?fc = "fetch_chunks api_key http_get 0 (variable_chunks variables max_vars) :: error + 'o table list"
  show ?thesis
  proof (cases ?fc)
    case (Inl e)
    then obtain s where "e = ValueError s" by (auto dest: fetch_chunks_error)
    with Inl have "fetch_acs_data api_key http_get variables max_vars = (Inl (ValueError s) :: error + 'o table)"
      using assms by (simp add: fetch_acs_data_def bind_err_def)
    moreover have "?fc \<noteq> Inr []" using Inl by simp
    ultimately show ?thesis
      using fetch_chunks_none_usable [of api_key http_get 0 "variable_chunks variables max_vars", where ?'o = 'o]
      by simp
  next
    case (Inr tables)
    show ?thesis
    proof (cases tables)
      case Nil
      with Inr show ?thesis
        using assms fetch_chunks_none_usable [of api_key http_get 0 "variable_chunks variables max_vars", where ?'o = 'o]
        by (simp add: fetch_acs_data_def bind_err_def)
    next
      case (Cons df rest)
      with Inr have "fetch_acs_data api_key http_get variables max_vars = merge_chunks df rest"
        using assms by (simp add: fetch_acs_data_def bind_err_def)
      then have "fetch_acs_data api_key http_get variables max_vars
            \<noteq> (Inl (Exception ''No data was successfully fetched from Census API'') :: error + 'o table)"
        using merge_chunks_error [of df rest] by (cases "merge_chunks df rest") auto
      moreover have "?fc \<noteq> Inr []" using Inr Cons by simp
      ultimately show ?thesis
        using fetch_chunks_none_usable [of api_key http_get 0 "variable_chunks variables max_vars", where ?'o = 'o]
        by simp
    qed
  qed
qed

lemma distinct_count_le_one: "distinct xs \<Longrightarrow> count_list xs k \<le> 1"
  by (induction xs) (auto simp: count_list_0_iff)

lemma count_list_filter_keep: "keep k \<Longrightarrow> count_list (filter keep xs) k = count_list xs k"
  by (induction xs) auto

lemma rect_concat_columns:
  assumes "rect a" and "rect b"
  shows "rect (concat_columns a b)"
proof -
  have "\<And>n. n < length (rws a) \<Longrightarrow> length (rws a ! n) = length (cols a)"
    using assms(1) by (simp add: rect_def list_all_iff)
  moreover have "\<And>n. n < length (rws b) \<Longrightarrow> length (rws b ! n) = length (cols b)"
    using assms(2) by (simp add: rect_def list_all_iff)
  ultimately show ?thesis
    by (auto simp: rect_def concat_columns_def list_all_iff)
qed

lemma merge_step_total:
  assumes rdf: "rect df"
    and udf: "\<forall>k \<in> set identifier_names. count_list (cols df) k \<le> 1"
    and rc: "rect chunk" and dc: "distinct (cols chunk)"
    and nd: "\<forall>c \<in> set (cols chunk). \<not> endswith c ''_dup''"
  shows "\<exists>m. merge_step df chunk = Inr m \<and> rect m
           \<and> (\<forall>k \<in> set identifier_names. count_list (cols m) k \<le> 1)
           \<and> set (cols m) \<subseteq> set (cols df) \<union> set (cols chunk)"
proof (cases "find (\<lambda>col. col \<in> set (cols df) \<and> col \<in> set (cols chunk)) identifier_names")
  case None
  then have no: "\<And>k. k \<in> set identifier_names \<Longrightarrow> k \<notin> set (cols df) \<or> k \<notin> set (cols chunk)"
    by (auto simp: find_None_iff)
  have m: "merge_step df chunk = Inr (concat_columns df chunk)"
    using None by (simp add: merge_step_def)
  have "count_list (cols (concat_columns df chunk)) k \<le> 1" if k: "k \<in> set identifier_names" for k
  proof -
    have c: "count_list (cols (concat_columns df chunk)) k
        = count_list (cols df) k + count_list (cols chunk) k"
      by (simp add: concat_columns_def)
    from no [OF k] show ?thesis
    proof
      assume "k \<notin> set (cols df)"
      then have "count_list (cols df) k = 0" by (simp add: count_list_0_iff)
      with c distinct_count_le_one [OF dc, of k] show ?thesis by simp
    next
      assume "k \<notin> set (cols chunk)"
      then have "count_list (cols chunk) k = 0" by (simp add: count_list_0_iff)
      with c udf k show ?thesis by simp
    qed
  qed
  moreover have "set (cols (concat_columns df chunk)) \<subseteq> set (cols df) \<union> set (cols chunk)"
    by (simp add: concat_columns_def)
  ultimately show ?thesis
    using m rect_concat_columns [OF rdf rc] by blast
next
  case (Some k)
  note sh = merge_step_shared [OF Some]
  let ?keep = "\<lambda>c. \<not> endswith c ''_dup''"
  let ?rc = "remove_nth (index_of k (cols chunk)) (cols chunk)"
  let ?rn = "map (\<lambda>c. if c \<in> set (cols df) then c @ ''_dup'' else c) ?rc"
  have "0 < count_list (cols df) k" using sh(2) by (rule count_in_set_pos)
  moreover have "count_list (cols df) k \<le> 1" using udf sh(4) by simp
  ultimately have one: "count_list (cols df) k = 1" by simp
  from outer_merge_succeeds [OF sh(2) sh(3) one dc nd]
  obtain m where pm: "pandas_merge OuterJoin k ([], ''_dup'') df chunk = Inr m" ..
  define merged where "merged = select_columns ?keep m"
  have ms: "merge_step df chunk = Inr merged"
    unfolding sh(1) merged_def using pm by (simp add: bind_err_def)
  note out = merge_step_outer [OF Some ms rdf rc]
  have cm: "cols merged = filter ?keep (cols df @ ?rn)"
    by (simp add: merged_def select_columns_def outer_merge_shape(1) [OF pm])
  have drc: "distinct ?rc" using dc by (rule distinct_remove_nth)
  have ndrc: "\<forall>c \<in> set ?rc. \<not> endswith c ''_dup''"
    using nd set_remove_nth_subset [of "index_of k (cols chunk)" "cols chunk"] by blast
  have drn: "distinct ?rn" using drc ndrc by (rule distinct_dup_renamed)
  have "count_list (cols merged) k' \<le> 1" if k': "k' \<in> set identifier_names" for k'
  proof -
    have keep: "?keep k'" using k' by (rule identifier_not_dup)
    have c: "count_list (cols merged) k' = count_list (cols df) k' + count_list ?rn k'"
      unfolding cm using keep by (simp add: count_list_filter_keep)
    show ?thesis
    proof (cases "k' \<in> set ?rn")
      case True
      then obtain c' where c': "c' \<in> set ?rc"
        and eq: "k' = (if c' \<in> set (cols df) then c' @ ''_dup'' else c')" by auto
      have "c' \<notin> set (cols df)"
      proof
        assume "c' \<in> set (cols df)"
        with eq have "k' = c' @ ''_dup''" by simp
        then have "endswith k' ''_dup''" by (simp only: endswith_append)
        with keep show False by simp
      qed
      with eq have "k' \<notin> set (cols df)" by simp
      then have "count_list (cols df) k' = 0" by (simp add: count_list_0_iff)
      with c distinct_count_le_one [OF drn, of k'] show ?thesis by simp
    next
      case False
      then have "count_list ?rn k' = 0" by (simp add: count_list_0_iff)
      with c udf k' show ?thesis by simp
    qed
  qed
  with ms out(4,6) show ?thesis by blast
qed

lemma merge_chunks_total:
  assumes "rect df" and "\<forall>k \<in> set identifier_names. count_list (cols df) k \<le> 1"
    and "\<forall>c \<in> set chunks. rect c \<and> distinct (cols c) \<and> (\<forall>l \<in> set (cols c). \<not> endswith l ''_dup'')"
  shows "\<exists>res. merge_chunks df chunks = Inr res
           \<and> set (cols res) \<subseteq> set (cols df) \<union> (\<Union>c \<in> set chunks. set (cols c))"
  using assms
proof (induction chunks arbitrary: df)
  case Nil
  then show ?case by simp
next
  case (Cons c chunks)
  have "rect c" "distinct (cols c)" "\<forall>l \<in> set (cols c). \<not> endswith l ''_dup''"
    using Cons.prems(3) by simp_all
  from merge_step_total [OF Cons.prems(1,2) this]
  obtain m where m: "merge_step df c = Inr m" "rect m"
    "\<forall>k \<in> set identifier_names. count_list (cols m) k \<le> 1"
    "set (cols m) \<subseteq> set (cols df) \<union> set (cols c)" by blast
  have "\<forall>c \<in> set chunks. rect c \<and> distinct (cols c) \<and> (\<forall>l \<in> set (cols c). \<not> endswith l ''_dup'')"
    using Cons.prems(3) by simp
  from Cons.IH [OF m(2,3) this]
  obtain res where res: "merge_chunks m chunks = Inr res"
    "set (cols res) \<subseteq> set (cols m) \<union> (\<Union>c \<in> set chunks. set (cols c))" by blast
  have "merge_chunks df (c # chunks) = Inr res"
    using m(1) res(1) by (simp add: bind_err_def)
  moreover have "set (cols res) \<subseteq> set (cols df) \<union> (\<Union>c \<in> set (c # chunks). set (cols c))"
    using res(2) m(4) by auto
  ultimately show ?case by blast
qed

lemma fetch_chunks_well_formed:
  assumes "list_all well_formed (filter usable (chunk_responses api_key http_get n chunks))"
  shows "(fetch_chunks api_key http_get n chunks :: error + 'o table list)
           = Inr (map payload_table (filter usable (chunk_responses api_key http_get n chunks)))"
  using assms
proof (induction chunks arbitrary: n)
  case Nil
  show ?case by simp
next
  case (Cons chunk rest)
  have "list_all well_formed (filter usable (chunk_responses api_key http_get (Suc n) rest))"
    using Cons.prems by (simp split: if_splits)
  then have IH: "(fetch_chunks api_key http_get (Suc n) rest :: error + 'o table list)
           = Inr (map payload_table (filter usable (chunk_responses api_key http_get (Suc n) rest)))"
    by (rule Cons.IH)
  show ?case
  proof (cases "http_get n (build_census_api_url api_key chunk GEO_LEVEL_ZIPCODE)")
    case RequestFailed
    then show ?thesis using IH by simp
  next
    case EmptyPayload
    then show ?thesis using IH by simp
  next
    case (Payload header body)
    show ?thesis
    proof (cases "body = []")
      case True
      with Payload show ?thesis using IH by simp
    next
      case False
      have "well_formed (Payload header body)" using Cons.prems Payload False by simp
      then have "(DataFrame body header :: error + 'o table)
          = Inr \<lparr>cols = header, rws = map (map cell_of_json) body\<rparr>"
        using False by (rule DataFrame_well_formed)
      then show ?thesis using Payload False IH by (simp add: bind_err_def)
    qed
  qed
qed

lemma payload_table_cols: "cols (payload_table r :: 'o table) = payload_header r"
  by (cases r) simp_all

lemma payload_table_well_formed:
  assumes "well_formed r"
  shows "rect (payload_table r :: 'o table) \<and> distinct (cols (payload_table r :: 'o table))
     \<and> (\<forall>l \<in> set (cols (payload_table r :: 'o table)). \<not> endswith l ''_dup'')"
  using assms by (cases r) (auto simp: rect_def list_all_iff)

lemma fetch_skips_failed_chunks:
  "fetch_acs_data ''key''
     (\<lambda>n req. if n = 0 then RequestFailed
        else Payload [''B01001_002E'', ''zip code tabulation area''] [[Some ''60'', Some ''64101'']])
     [''B01001_001E'', ''B01001_002E''] 1
   = (Inr \<lparr>cols = [''B01001_002E'', ''zip code tabulation area''],
           rws = [[Str ''60'', Str ''64101'']]\<rparr> :: error + unit table)
   \<and> chunk_responses ''key''
     (\<lambda>n req. if n = 0 then RequestFailed
        else Payload [''B01001_002E'', ''zip code tabulation area''] [[Some ''60'', Some ''64101'']])
     0 (variable_chunks [''B01001_001E'', ''B01001_002E''] 1)
     = [RequestFailed,
        Payload [''B01001_002E'', ''zip code tabulation area''] [[Some ''60'', Some ''64101'']]]"
  by code_simp

text \<open>
  Claim C3 says that the fetch raises if and only if no chunk produced usable data. The
  \<open>try\<close> block catches \<open>RequestException\<close> only. With two chunks, the first answered by a
  table of two rows and the second by two rows of which the data row has one cell more
  than the row of labels, the \<open>DataFrame\<close> constructor raises \<open>ValueError\<close> for the second
  chunk and the fetch raises, although the first chunk (and, by the count of its rows, the
  second) produced usable data.
\<close>

theorem C3_malformed_payload_aborts:
  "fetch_acs_data ''key''
     (\<lambda>n req. if n = 0
        then Payload [''B01001_001E'', ''zip code tabulation area''] [[Some ''120'', Some ''64101'']]
        else Payload [''B01001_002E'', ''zip code tabulation area'']
               [[Some ''60'', Some ''64101'', Some ''extra'']])
     [''B01001_001E'', ''B01001_002E''] 1
   = (Inl (ValueError ''2 columns passed, passed data had 3 columns'') :: error + unit table)
   \<and> chunk_responses ''key''
     (\<lambda>n req. if n = 0
        then Payload [''B01001_001E'', ''zip code tabulation area''] [[Some ''120'', Some ''64101'']]
        else Payload [''B01001_002E'', ''zip code tabulation area'']
               [[Some ''60'', Some ''64101'', Some ''extra'']])
     0 (variable_chunks [''B01001_001E'', ''B01001_002E''] 1)
     = [Payload [''B01001_001E'', ''zip code tabulation area''] [[Some ''120'', Some ''64101'']],
        Payload [''B01001_002E'', ''zip code tabulation area'']
               [[Some ''60'', Some ''64101'', Some ''extra'']]]
   \<and> usable (Payload [''B01001_001E'', ''zip code tabulation area''] [[Some ''120'', Some ''64101'']])"
  by code_simp


text \<open>
  Claim C3, as amended. The fetch raises its own exception
  \<open>No data was successfully fetched from Census API\<close> if and only if no chunk produced
  usable data (every chunk failed with a request error or gave fewer than two rows). When
  at least one chunk produced usable data and the payload of every such chunk is a table
  (each data row as long as the row of labels, the labels distinct and none ending in
  \<open>_dup\<close>), the fetch
  returns normally: the failed chunks are skipped, the result is the merge of the tables
  of the usable chunks, and each of its columns is a label of a usable chunk, so the
  variables of a failed chunk are absent.
\<close>

theorem C3_fetch_failure_policy:
  assumes "max_vars \<noteq> 0"
    and "rs = chunk_responses api_key http_get 0 (variable_chunks variables max_vars)"
  shows "((fetch_acs_data api_key http_get variables max_vars :: error + 'o table)
            = Inl (Exception ''No data was successfully fetched from Census API'')
          \<longleftrightarrow> \<not> list_ex usable rs)
     \<and> (list_ex usable rs \<and> list_all well_formed (filter usable rs)
        \<longrightarrow> (\<exists>df t ts. (fetch_acs_data api_key http_get variables max_vars :: error + 'o table) = Inr df
               \<and> map payload_table (filter usable rs) = t # ts
               \<and> merge_chunks t ts = Inr df
               \<and> set (cols df) \<subseteq> (\<Union>r \<in> set (filter usable rs). set (payload_header r))))"
proof -
  have no_data: "(fetch_acs_data api_key http_get variables max_vars :: error + 'o table)
            = Inl (Exception ''No data was successfully fetched from Census API'')
          \<longleftrightarrow> \<not> list_ex usable rs"
    unfolding assms(2) using assms(1) by (rule fetch_no_data_iff)
  have ok: "\<exists>df t ts. (fetch_acs_data api_key http_get variables max_vars :: error + 'o table) = Inr df
               \<and> map payload_table (filter usable rs) = t # ts
               \<and> merge_chunks t ts = Inr df
               \<and> set (cols df) \<subseteq> (\<Union>r \<in> set (filter usable rs). set (payload_header r))"
    if some: "list_ex usable rs" and wf: "list_all well_formed (filter usable rs)"
  proof -
    have fc: "(fetch_chunks api_key http_get 0 (variable_chunks variables max_vars) :: error + 'o table list)
        = Inr (map payload_table (filter usable rs))"
      unfolding assms(2) using wf [unfolded assms(2)] by (rule fetch_chunks_well_formed)
    from some obtain r rest where f: "filter usable rs = r # rest"
      by (cases "filter usable rs") (auto simp: list_ex_iff filter_empty_conv)
    have wf_all: "\<And>x. x \<in> set (r # rest) \<Longrightarrow> well_formed x"
      using wf unfolding f by (auto simp: list_all_iff)
    define t :: "'o table" where "t = payload_table r"
    define ts :: "'o table list" where "ts = map payload_table rest"
    have tables: "map payload_table (filter usable rs) = t # ts"
      by (simp add: f t_def ts_def)
    have wt: "rect t" "distinct (cols t)"
      using payload_table_well_formed [of r, where ?'o = 'o] wf_all unfolding t_def by simp_all
    have ut: "\<forall>k \<in> set identifier_names. count_list (cols t) k \<le> 1"
      using distinct_count_le_one [OF wt(2)] by blast
    have wts: "\<forall>c \<in> set ts. rect c \<and> distinct (cols c) \<and> (\<forall>l \<in> set (cols c). \<not> endswith l ''_dup'')"
      using payload_table_well_formed [where ?'o = 'o] wf_all unfolding ts_def by auto
    from merge_chunks_total [OF wt(1) ut wts]
    obtain df where df: "merge_chunks t ts = Inr df"
      and sub: "set (cols df) \<subseteq> set (cols t) \<union> (\<Union>c \<in> set ts. set (cols c))" by blast
    have a: "fetch_acs_data api_key http_get variables max_vars = Inr df"
      using assms(1) fc tables df by (simp add: fetch_acs_data_def bind_err_def)
    have b: "set (cols df) \<subseteq> (\<Union>r \<in> set (filter usable rs). set (payload_header r))"
      using sub by (simp add: f t_def ts_def payload_table_cols)
    show ?thesis
      by (rule exI [of _ df], rule exI [of _ t], rule exI [of _ ts]) (simp only: a tables df b simp_thms)
  qed
  from no_data ok show ?thesis by blast
qed

theorem C3_fetch_failure_policy_witness:
  "(1::int) \<noteq> 0
   \<and> list_ex usable [RequestFailed,
        Payload [''B01001_002E'', ''zip code tabulation area''] [[Some ''60'', Some ''64101'']]]
   \<and> list_all well_formed (filter usable [RequestFailed,
        Payload [''B01001_002E'', ''zip code tabulation area''] [[Some ''60'', Some ''64101'']]])
   \<and> fetch_acs_data ''key''
       (\<lambda>n req. if n = 0 then RequestFailed
          else Payload [''B01001_002E'', ''zip code tabulation area''] [[Some ''60'', Some ''64101'']])
       [''B01001_001E'', ''B01001_002E''] 1
     = (Inr \<lparr>cols = [''B01001_002E'', ''zip code tabulation area''],
             rws = [[Str ''60'', Str ''64101'']]\<rparr> :: error + unit table)
   \<and> ''B01001_001E'' \<notin> set [''B01001_002E'', ''zip code tabulation area'']"
  using C3_fetch_failure_policy [of 1
      "[RequestFailed,
        Payload [''B01001_002E'', ''zip code tabulation area''] [[Some ''60'', Some ''64101'']]]"
      "''key''"
      "\<lambda>n req. if n = 0 then RequestFailed
          else Payload [''B01001_002E'', ''zip code tabulation area''] [[Some ''60'', Some ''64101'']]"
      "[''B01001_001E'', ''B01001_002E'']", where ?'o = unit]
    fetch_skips_failed_chunks
  by (simp add: endswith_def)

end
